theory Spec2Isabelle
  imports Main
begin

section \<open>Strings of the source language\<close>

text \<open>
  A string of the program is a sequence of UTF-16 code units. The model uses
  \<^typ>\<open>string\<close> and reads each \<^typ>\<open>char\<close> as one code unit below 256, so it covers
  the strings whose code units all lie in that range. On them \<open>trim\<close>,
  \<open>toLowerCase\<close>, \<open>startsWith\<close>, \<open>includes\<close> (here \<open>includesStr\<close>) and the regular
  expression of \<open>parseIndex\<close> are modelled exactly.

  The assistant's fixed texts contain three punctuation marks outside that range (a
  typographic apostrophe, a dash and a bullet). They are only displayed, never read back
  by the dialog engine, and are written here as \<open>'\<close>, \<open>-\<close> and \<open>*\<close>.
\<close>

definition isWhiteSpace :: "char \<Rightarrow> bool" where
  \<comment> \<open>the code units below 256 that \<open>String.prototype.trim\<close> strips:
      TAB, LF, VT, FF, CR, SPACE and NO-BREAK SPACE\<close>
  "isWhiteSpace c = (of_char c \<in> {9::nat, 10, 11, 12, 13, 32, 160})"

definition trim :: "string \<Rightarrow> string" where
  "trim s = rev (dropWhile isWhiteSpace (rev (dropWhile isWhiteSpace s)))"

definition lowerChar :: "char \<Rightarrow> char" where
  \<comment> \<open>A-Z and the upper-case letters of the Latin-1 block (all of 0xC0-0xDE but
      the multiplication sign 0xD7) move up by 32; nothing else changes\<close>
  "lowerChar c =
     (let n = (of_char c :: nat)
      in if (65 \<le> n \<and> n \<le> 90) \<or> (192 \<le> n \<and> n \<le> 222 \<and> n \<noteq> 215)
         then char_of (n + 32) else c)"

definition toLowerCase :: "string \<Rightarrow> string" where
  "toLowerCase s = map lowerChar s"

fun startsWith :: "string \<Rightarrow> string \<Rightarrow> bool" where
  "startsWith s [] = True"
| "startsWith [] (p # ps) = False"
| "startsWith (c # cs) (p # ps) = (c = p \<and> startsWith cs ps)"

fun includesStr :: "string \<Rightarrow> string \<Rightarrow> bool" where
  "includesStr [] sub = (sub = [])"
| "includesStr (c # cs) sub = (startsWith (c # cs) sub \<or> includesStr cs sub)"

definition isDigit :: "char \<Rightarrow> bool" where
  "isDigit c = (48 \<le> (of_char c :: nat) \<and> (of_char c :: nat) \<le> 57)"

definition digitValue :: "char \<Rightarrow> nat" where
  "digitValue c = of_char c - 48"

definition parseDecimal :: "string \<Rightarrow> nat" where
  \<comment> \<open>\<open>Number.parseInt(ds, 10)\<close> on a non-empty run of decimal digits\<close>
  "parseDecimal ds = foldl (\<lambda>n c. 10 * n + digitValue c) 0 ds"

fun join :: "string \<Rightarrow> string list \<Rightarrow> string" where
  "join sep [] = []"
| "join sep [x] = x"
| "join sep (x # y # ys) = x @ sep @ join sep (y # ys)"

fun showNat :: "nat \<Rightarrow> string" where
  "showNat n =
     (if n < 10 then [char_of (48 + n)]
      else showNat (n div 10) @ [char_of (48 + n mod 10)])"

declare showNat.simps [simp del]

text \<open>
  \<open>parseIndex\<close>: the pattern \<open>/^(?:#)?(\d+)/\<close> is anchored at the start only, so it
  accepts an optional \<open>#\<close> and then the longest run of digits, whatever follows;
  \<open>matchIndex\<close> returns the capture group, \<open>None\<close> when there is no match. The
  result of \<open>parseIndex\<close> is the number minus one, hence \<open>-1\<close> for \<open>0\<close>; \<open>None\<close> is
  the source's \<open>null\<close>. \<open>Number.parseInt\<close> yields a double: it is exact up to \<open>2^53\<close>
  and stays above every array length beyond, so the exact integer is kept here (and
  the result is never \<open>NaN\<close>, the run of digits being non-empty).
\<close>

definition matchIndex :: "string \<Rightarrow> string option" where
  "matchIndex t =
     (let r = (case t of [] \<Rightarrow> [] | c # cs \<Rightarrow> if c = CHR ''#'' then cs else t);
          ds = takeWhile isDigit r
      in if ds = [] then None else Some ds)"

definition parseIndex :: "string \<Rightarrow> int option" where
  "parseIndex v =
     (case matchIndex (trim v) of
        None \<Rightarrow> None
      | Some ds \<Rightarrow> Some (int (parseDecimal ds) - 1))"

section \<open>Data model\<close>

datatype Role = Assistant | User

text \<open>
  A message also carries an id from \<open>crypto.randomUUID()\<close> and a timestamp from the
  clock. Both are used for display only and are left out.
\<close>

record Message =
  role :: Role
  content :: string

text \<open>
  \<open>Priority\<close> is a union of three string literals, which the compiler erases: at run
  time a priority is a string, and the store read back at startup is not validated.
\<close>

type_synonym Priority = string

record Task =
  task_id :: string
  title :: string
  due :: string
  priority :: Priority
  reminder :: "string option"

text \<open>
  \<open>Partial<Task>\<close>: every field may be absent. For \<open>reminder\<close> absent (\<open>None\<close>) differs
  from present and \<open>null\<close> (\<open>Some None\<close>): only the second overwrites on a merge.
\<close>

record PartialTask =
  p_id :: "string option"
  p_title :: "string option"
  p_due :: "string option"
  p_priority :: "Priority option"
  p_reminder :: "string option option"

record QuickAction =
  label :: string
  btn_value :: string

datatype Action = Idle | Add | Update | Delete | View

record State =
  messages :: "Message list"
  input :: string
  tasks :: "Task list"
  action :: Action
  flowStep :: nat
  pendingTask :: PartialTask
  selectedTaskId :: "string option"
  pendingField :: "string option"
  buttons :: "QuickAction list"

definition priorityOptions :: "Priority list" where
  "priorityOptions = [''High'', ''Medium'', ''Low'']"

definition qa :: "string \<Rightarrow> string \<Rightarrow> QuickAction" where
  "qa l v = \<lparr>label = l, btn_value = v\<rparr>"

definition idleActions :: "QuickAction list" where
  "idleActions =
     [qa ''Add Task'' ''Add Task'', qa ''Update Task'' ''Update Task'',
      qa ''Delete Task'' ''Delete Task'', qa ''View Tasks'' ''View Tasks'']"

definition initialMessages :: "Message list" where
  "initialMessages =
     [\<lparr>role = Assistant,
       content = ''Hey! I'm your WhatsApp Task Scheduler. Need to add, update, delete, or check tasks?''\<rparr>,
      \<lparr>role = Assistant, content = ''Just tap an option or tell me what you need.''\<rparr>]"

definition defaultDraft :: PartialTask where
  \<comment> \<open>the object \<open>{ priority: 'Medium' }\<close>\<close>
  "defaultDraft =
     \<lparr>p_id = None, p_title = None, p_due = None, p_priority = Some ''Medium'',
      p_reminder = None\<rparr>"

definition emptyDraft :: PartialTask where
  \<comment> \<open>the object \<open>{}\<close>\<close>
  "emptyDraft =
     \<lparr>p_id = None, p_title = None, p_due = None, p_priority = None, p_reminder = None\<rparr>"

definition initialState :: State where
  "initialState =
     \<lparr>messages = initialMessages, input = [], tasks = [], action = Idle, flowStep = 0,
      pendingTask = defaultDraft, selectedTaskId = None, pendingField = None,
      buttons = idleActions\<rparr>"

section \<open>State updates\<close>

text \<open>
  The handlers are closures of one render: every state variable they read has the value
  of that render (the snapshot \<open>r\<close>), while their \<open>set...\<close> calls are queued and applied
  in order to the state of the next render (the accumulator \<open>a\<close>). A setter called with a
  value overwrites; a setter called with a function (\<open>prev => ...\<close>) is applied to the
  queued value. Each handler is therefore a function of the snapshot and the user's
  text, returning a transformer of the accumulator; one turn starts with \<open>a = r\<close>.
\<close>

definition run :: "('s \<Rightarrow> 's) list \<Rightarrow> 's \<Rightarrow> 's" where
  \<comment> \<open>the statements of a block, in order\<close>
  "run fs a = fold (\<lambda>f. f) fs a"

definition setInput :: "string \<Rightarrow> State \<Rightarrow> State" where
  "setInput v a = a\<lparr>input := v\<rparr>"

definition setTasks :: "Task list \<Rightarrow> State \<Rightarrow> State" where
  "setTasks v a = a\<lparr>tasks := v\<rparr>"

definition updTasks :: "(Task list \<Rightarrow> Task list) \<Rightarrow> State \<Rightarrow> State" where
  \<comment> \<open>\<open>setTasks(prev => f(prev))\<close>\<close>
  "updTasks f a = a\<lparr>tasks := f (tasks a)\<rparr>"

definition setAction :: "Action \<Rightarrow> State \<Rightarrow> State" where
  "setAction v a = a\<lparr>action := v\<rparr>"

definition setFlowStep :: "nat \<Rightarrow> State \<Rightarrow> State" where
  "setFlowStep v a = a\<lparr>flowStep := v\<rparr>"

definition setPendingTask :: "PartialTask \<Rightarrow> State \<Rightarrow> State" where
  "setPendingTask v a = a\<lparr>pendingTask := v\<rparr>"

definition updPendingTask :: "(PartialTask \<Rightarrow> PartialTask) \<Rightarrow> State \<Rightarrow> State" where
  \<comment> \<open>\<open>setPendingTask(prev => f(prev))\<close>\<close>
  "updPendingTask f a = a\<lparr>pendingTask := f (pendingTask a)\<rparr>"

definition setSelectedTaskId :: "string option \<Rightarrow> State \<Rightarrow> State" where
  "setSelectedTaskId v a = a\<lparr>selectedTaskId := v\<rparr>"

definition setPendingField :: "string option \<Rightarrow> State \<Rightarrow> State" where
  "setPendingField v a = a\<lparr>pendingField := v\<rparr>"

definition setButtons :: "QuickAction list \<Rightarrow> State \<Rightarrow> State" where
  "setButtons v a = a\<lparr>buttons := v\<rparr>"

definition pushMessage :: "Role \<Rightarrow> string \<Rightarrow> State \<Rightarrow> State" where
  "pushMessage ro c a = a\<lparr>messages := messages a @ [\<lparr>role = ro, content = c\<rparr>]\<rparr>"

definition resetConversation :: "State \<Rightarrow> State" where
  "resetConversation =
     run [setAction Idle, setFlowStep 0, setPendingTask defaultDraft,
          setSelectedTaskId None, setPendingField None, setButtons idleActions]"

definition showIdleOptions :: "State \<Rightarrow> State" where
  "showIdleOptions =
     run [pushMessage Assistant
            ''Anything else I can help with? Add, update, delete, or view tasks.'',
          resetConversation]"

section \<open>Helpers of the flows\<close>

definition nl :: string where
  "nl = [CHR 0x0A]"

definition falsy :: "string option \<Rightarrow> bool" where
  \<comment> \<open>\<open>!v\<close> for \<open>v: string | null\<close>: \<open>null\<close> and the empty string\<close>
  "falsy v = (v = None \<or> v = Some [])"

definition saysYes :: "string \<Rightarrow> bool" where
  \<comment> \<open>\<open>userInput.trim().toLowerCase().startsWith('y')\<close>\<close>
  "saysYes userInput = startsWith (toLowerCase (trim userInput)) ''y''"

definition saysNo :: "string \<Rightarrow> bool" where
  "saysNo userInput = startsWith (toLowerCase (trim userInput)) ''n''"

definition findPriority :: "string \<Rightarrow> Priority option" where
  \<comment> \<open>\<open>priorityOptions.find(p => p.toLowerCase() === userInput.trim().toLowerCase())\<close>\<close>
  "findPriority userInput =
     find (\<lambda>p. toLowerCase p = toLowerCase (trim userInput)) priorityOptions"

definition priorityButtons :: "QuickAction list" where
  "priorityButtons = map (\<lambda>p. qa p p) priorityOptions"

definition saveButtons :: "QuickAction list" where
  "saveButtons = [qa ''Yes, save'' ''yes'', qa ''No, cancel'' ''no'']"

definition orNone :: "string option \<Rightarrow> string" where
  \<comment> \<open>\<open>reminder ?? 'None'\<close>\<close>
  "orNone v = (case v of None \<Rightarrow> ''None'' | Some x \<Rightarrow> x)"

definition summaryParts :: "Task \<Rightarrow> string list" where
  "summaryParts t =
     [''Task: '' @ title t, ''Due: '' @ due t, ''Priority: '' @ priority t,
      ''Reminder: '' @ orNone (reminder t)]"

definition numberedList :: "Task list \<Rightarrow> string" where
  "numberedList ts =
     join nl (map (\<lambda>(index, task).
                ''#'' @ showNat (index + 1) @ '' '' @ title task @ '' - Due: '' @ due task
                  @ '' - Priority: '' @ priority task)
              (enumerate 0 ts))"

definition bulletList :: "Task list \<Rightarrow> string" where
  "bulletList ts =
     join (nl @ nl)
       (map (\<lambda>task. ''* '' @ title task @ nl @ ''  Due: '' @ due task @ nl
                @ ''  Priority: '' @ priority task @ nl
                @ ''  Reminder: '' @ orNone (reminder task)) ts)"

definition mergeTask :: "Task \<Rightarrow> PartialTask \<Rightarrow> Task" where
  \<comment> \<open>\<open>{ ...task, ...partial }\<close>: every field present in the partial overwrites\<close>
  "mergeTask t p =
     \<lparr>task_id = (case p_id p of None \<Rightarrow> task_id t | Some v \<Rightarrow> v),
      title = (case p_title p of None \<Rightarrow> title t | Some v \<Rightarrow> v),
      due = (case p_due p of None \<Rightarrow> due t | Some v \<Rightarrow> v),
      priority = (case p_priority p of None \<Rightarrow> priority t | Some v \<Rightarrow> v),
      reminder = (case p_reminder p of None \<Rightarrow> reminder t | Some v \<Rightarrow> v)\<rparr>"

definition materialize :: "string \<Rightarrow> PartialTask \<Rightarrow> Task" where
  \<comment> \<open>the task built at the save step of the Add flow; \<open>uuid\<close> is what
      \<open>crypto.randomUUID()\<close> returns. \<open>x?.trim() ?? d\<close> takes \<open>d\<close> only when \<open>x\<close> is absent\<close>
  "materialize uuid p =
     \<lparr>task_id = uuid,
      title = (case p_title p of None \<Rightarrow> ''Untitled task'' | Some v \<Rightarrow> trim v),
      due = (case p_due p of None \<Rightarrow> ''No due date'' | Some v \<Rightarrow> trim v),
      priority = (case p_priority p of None \<Rightarrow> ''Medium'' | Some v \<Rightarrow> v),
      reminder = (case p_reminder p of None \<Rightarrow> None | Some v \<Rightarrow> v)\<rparr>"

section \<open>The flows\<close>

text \<open>
  Each flow handler is a chain of blocks \<open>if (flowStep === n) { ...; return; }\<close>. Every
  block is a definition of its own (\<open>addStep0\<close> ... \<open>deleteStep2\<close>), taking what it reads:
  the snapshot \<open>r\<close>, the user's text and the accumulator \<open>a\<close>; the handler selects the
  block by the step counter of the snapshot and does nothing for any other value.
\<close>

definition addStep0 :: "State \<Rightarrow> State" where
  \<comment> \<open>the block \<open>if (flowStep === 0)\<close> of \<open>handleAddFlow\<close>\<close>
  "addStep0 a =
     run [setPendingTask defaultDraft,
          pushMessage Assistant ''Great! What is the task?'',
          setFlowStep 1, setButtons []] a"

definition addStep1 :: "string \<Rightarrow> State \<Rightarrow> State" where
  \<comment> \<open>the block \<open>if (flowStep === 1)\<close> of \<open>handleAddFlow\<close>\<close>
  "addStep1 userInput a =
     run [updPendingTask (\<lambda>prev. prev\<lparr>p_title := Some (trim userInput)\<rparr>),
          pushMessage Assistant ''Got it. When is it due? (e.g. \"24 Apr 5pm\")'',
          setFlowStep 2] a"

definition addStep2 :: "string \<Rightarrow> State \<Rightarrow> State" where
  \<comment> \<open>the block \<open>if (flowStep === 2)\<close> of \<open>handleAddFlow\<close>\<close>
  "addStep2 userInput a =
     run [updPendingTask (\<lambda>prev. prev\<lparr>p_due := Some (trim userInput)\<rparr>),
          pushMessage Assistant ''Any priority? High, Medium, or Low?'',
          setButtons priorityButtons, setFlowStep 3] a"

definition addStep3 :: "string \<Rightarrow> State \<Rightarrow> State" where
  \<comment> \<open>the block \<open>if (flowStep === 3)\<close> of \<open>handleAddFlow\<close>\<close>
  "addStep3 userInput a =
     (case findPriority userInput of
        None \<Rightarrow> pushMessage Assistant ''Please choose between High, Medium, or Low.'' a
      | Some pr \<Rightarrow>
          run [updPendingTask (\<lambda>prev. prev\<lparr>p_priority := Some pr\<rparr>),
               setButtons [qa ''Yes, add reminder'' ''yes'', qa ''No reminder'' ''no''],
               pushMessage Assistant ''Do you want to add a reminder?'',
               setFlowStep 4] a)"

definition addStep4 :: "string \<Rightarrow> State \<Rightarrow> State" where
  \<comment> \<open>the block \<open>if (flowStep === 4)\<close> of \<open>handleAddFlow\<close>\<close>
  "addStep4 userInput a =
     (if saysYes userInput then
        run [pushMessage Assistant ''Sure, when should I remind you?'',
             setFlowStep 5, setButtons []] a
      else if saysNo userInput then
        run [updPendingTask (\<lambda>prev. prev\<lparr>p_reminder := Some None\<rparr>),
             pushMessage Assistant ''Here is what I captured. Save it? (yes/no)'',
             setFlowStep 6, setButtons saveButtons] a
      else pushMessage Assistant ''Please say yes or no for the reminder.'' a)"

definition addStep5 :: "string \<Rightarrow> State \<Rightarrow> State" where
  \<comment> \<open>the block \<open>if (flowStep === 5)\<close> of \<open>handleAddFlow\<close>\<close>
  "addStep5 userInput a =
     run [updPendingTask (\<lambda>prev. prev\<lparr>p_reminder := Some (Some (trim userInput))\<rparr>),
          pushMessage Assistant ''Thanks! Shall I save it? (yes/no)'',
          setFlowStep 6, setButtons saveButtons] a"

definition addStep6 :: "string \<Rightarrow> State \<Rightarrow> string \<Rightarrow> State \<Rightarrow> State" where
  \<comment> \<open>the block \<open>if (flowStep === 6)\<close> of \<open>handleAddFlow\<close>\<close>
  "addStep6 uuid r userInput a =
     (if saysYes userInput then
        (let task = materialize uuid (pendingTask r);
             updated = tasks r @ [task]
         in run [setTasks updated,
                 pushMessage Assistant (''All set!'' @ nl @ join nl (summaryParts task)),
                 showIdleOptions] a)
      else
        run [pushMessage Assistant ''No worries, I will discard that task.'',
             showIdleOptions] a)"

definition handleAddFlow :: "string \<Rightarrow> State \<Rightarrow> string \<Rightarrow> State \<Rightarrow> State" where
  "handleAddFlow uuid r userInput a =
     (if flowStep r = 0 then addStep0 a
      else if flowStep r = 1 then addStep1 userInput a
      else if flowStep r = 2 then addStep2 userInput a
      else if flowStep r = 3 then addStep3 userInput a
      else if flowStep r = 4 then addStep4 userInput a
      else if flowStep r = 5 then addStep5 userInput a
      else if flowStep r = 6 then addStep6 uuid r userInput a
      else a)"

definition changeButtons :: "QuickAction list" where
  "changeButtons =
     [qa ''Task name'' ''title'', qa ''Due date & time'' ''due'',
      qa ''Priority'' ''priority'', qa ''Reminder'' ''reminder'']"

definition validIndex :: "string \<Rightarrow> Task list \<Rightarrow> nat option" where
  \<comment> \<open>\<open>parseIndex\<close> and the guard \<open>index === null || index < 0 || index >= tasks.length\<close>
      of the Update and Delete flows: \<open>None\<close> when the guard fires\<close>
  "validIndex userInput ts =
     (case parseIndex userInput of
        None \<Rightarrow> None
      | Some index \<Rightarrow>
          if index < 0 \<or> index \<ge> int (length ts) then None else Some (nat index))"

definition previewText :: "string \<Rightarrow> Task \<Rightarrow> string" where
  "previewText head preview =
     head @ nl @ join nl (summaryParts preview) @ nl @ ''Save it? (yes/no)''"

definition updateDelta :: "State \<Rightarrow> string \<Rightarrow> (State \<Rightarrow> State) + PartialTask" where
  \<comment> \<open>step 3 of the Update flow between the two lookups and the preview: either the
      statements of an early \<open>return\<close> (\<open>Inl\<close>) or the finished \<open>updateDraft\<close> (\<open>Inr\<close>)\<close>
  "updateDelta r userInput =
     (if pendingField r = Some ''priority'' then
        (case findPriority userInput of
           None \<Rightarrow> Inl (pushMessage Assistant ''Priority should be High, Medium, or Low.'')
         | Some pr \<Rightarrow> Inr (emptyDraft\<lparr>p_priority := Some pr\<rparr>))
      else if pendingField r = Some ''reminder'' then
        (let option = toLowerCase (trim userInput)
         in if option = ''remove'' then Inr (emptyDraft\<lparr>p_reminder := Some None\<rparr>)
            else if option = ''update'' then
              Inl (run [pushMessage Assistant ''What is the new reminder time?'',
                        setFlowStep 4, setButtons []])
            else Inr (emptyDraft\<lparr>p_reminder := Some (Some (trim userInput))\<rparr>))
      else if pendingField r = Some ''title'' then
        Inr (emptyDraft\<lparr>p_title := Some (trim userInput)\<rparr>)
      else if pendingField r = Some ''due'' then
        Inr (emptyDraft\<lparr>p_due := Some (trim userInput)\<rparr>)
      else Inr emptyDraft)"

definition updateStep0 :: "State \<Rightarrow> State \<Rightarrow> State" where
  \<comment> \<open>the block \<open>if (flowStep === 0)\<close> of \<open>handleUpdateFlow\<close>\<close>
  "updateStep0 r a =
     (if length (tasks r) = 0 then
        run [pushMessage Assistant ''You have no tasks yet. Let's add one.'',
             resetConversation] a
      else
        run [pushMessage Assistant
               (''Which task do you want to update?'' @ nl @ numberedList (tasks r)),
             setFlowStep 1] a)"

definition updateStep1 :: "State \<Rightarrow> string \<Rightarrow> State \<Rightarrow> State" where
  \<comment> \<open>the block \<open>if (flowStep === 1)\<close> of \<open>handleUpdateFlow\<close>\<close>
  "updateStep1 r userInput a =
     (case validIndex userInput (tasks r) of
        None \<Rightarrow> pushMessage Assistant ''Please pick a valid task number.'' a
      | Some index \<Rightarrow>
          (let task = tasks r ! index
           in run [setSelectedTaskId (Some (task_id task)),
                   pushMessage Assistant ''What do you want to change?'',
                   setButtons changeButtons, setFlowStep 2] a))"

definition updateStep2 :: "string \<Rightarrow> State \<Rightarrow> State" where
  \<comment> \<open>the block \<open>if (flowStep === 2)\<close> of \<open>handleUpdateFlow\<close>\<close>
  "updateStep2 userInput a =
     (let field = toLowerCase (trim userInput)
      in if field \<notin> set [''title'', ''due'', ''priority'', ''reminder''] then
           pushMessage Assistant ''Please choose title, due, priority, or reminder.'' a
         else
           run [setPendingField (Some field),
                (if field = ''priority'' then
                   run [setButtons priorityButtons,
                        pushMessage Assistant ''New priority? (High/Medium/Low)'']
                 else if field = ''reminder'' then
                   run [setButtons [qa ''Update reminder'' ''update'',
                                    qa ''Remove reminder'' ''remove''],
                        pushMessage Assistant
                          ''Want to update the reminder or remove it?'']
                 else
                   run [setButtons [],
                        pushMessage Assistant
                          (''Alright, what is the new ''
                             @ (if field = ''title'' then ''task name''
                                else ''due date & time'') @ ''?'')]),
                setFlowStep 3] a)"

definition updateStep3 :: "State \<Rightarrow> string \<Rightarrow> State \<Rightarrow> State" where
  \<comment> \<open>the block \<open>if (flowStep === 3)\<close> of \<open>handleUpdateFlow\<close>\<close>
  "updateStep3 r userInput a =
     (if falsy (selectedTaskId r) then
        run [pushMessage Assistant ''Let's start over.'', resetConversation] a
      else
        (case find (\<lambda>task. Some (task_id task) = selectedTaskId r) (tasks r) of
           None \<Rightarrow>
             run [pushMessage Assistant ''I could not find that task. Let's try again.'',
                  resetConversation] a
         | Some currentTask \<Rightarrow>
             (case updateDelta r userInput of
                Inl early \<Rightarrow> early a
              | Inr updateDraft \<Rightarrow>
                  (let preview = mergeTask currentTask updateDraft
                   in run [setPendingTask updateDraft,
                           pushMessage Assistant
                             (previewText ''Here is the updated version:'' preview),
                           setButtons saveButtons, setFlowStep 5] a))))"

definition updateStep4 :: "State \<Rightarrow> string \<Rightarrow> State \<Rightarrow> State" where
  \<comment> \<open>the block \<open>if (flowStep === 4)\<close> of \<open>handleUpdateFlow\<close>\<close>
  "updateStep4 r userInput a =
     (if falsy (selectedTaskId r) then
        run [pushMessage Assistant ''Let's start over.'', resetConversation] a
      else
        (case find (\<lambda>task. Some (task_id task) = selectedTaskId r) (tasks r) of
           None \<Rightarrow>
             run [pushMessage Assistant ''Task not found, sorry.'', resetConversation] a
         | Some currentTask \<Rightarrow>
             (let updateDraft = emptyDraft\<lparr>p_reminder := Some (Some (trim userInput))\<rparr>;
                  preview = mergeTask currentTask updateDraft
              in run [setPendingTask updateDraft,
                      pushMessage Assistant
                        (previewText ''Updated reminder ready:'' preview),
                      setButtons saveButtons, setFlowStep 5] a)))"

definition updateStep5 :: "State \<Rightarrow> string \<Rightarrow> State \<Rightarrow> State" where
  \<comment> \<open>the block \<open>if (flowStep === 5)\<close> of \<open>handleUpdateFlow\<close>\<close>
  "updateStep5 r userInput a =
     (if falsy (selectedTaskId r) then
        run [pushMessage Assistant ''Looks like that task vanished.'',
             resetConversation] a
      else
        run [(if saysYes userInput then
                run [updTasks (map (\<lambda>task.
                       if Some (task_id task) = selectedTaskId r
                       then mergeTask task (pendingTask r) else task)),
                     pushMessage Assistant ''Updated! Anything else?'']
              else pushMessage Assistant ''No changes saved.''),
             showIdleOptions] a)"

definition handleUpdateFlow :: "State \<Rightarrow> string \<Rightarrow> State \<Rightarrow> State" where
  "handleUpdateFlow r userInput a =
     (if flowStep r = 0 then updateStep0 r a
      else if flowStep r = 1 then updateStep1 r userInput a
      else if flowStep r = 2 then updateStep2 userInput a
      else if flowStep r = 3 then updateStep3 r userInput a
      else if flowStep r = 4 then updateStep4 r userInput a
      else if flowStep r = 5 then updateStep5 r userInput a
      else a)"

definition deleteStep0 :: "State \<Rightarrow> State \<Rightarrow> State" where
  \<comment> \<open>the block \<open>if (flowStep === 0)\<close> of \<open>handleDeleteFlow\<close>\<close>
  "deleteStep0 r a =
     (if length (tasks r) = 0 then
        run [pushMessage Assistant
               ''No tasks to delete right now. Want to add one instead?'',
             resetConversation] a
      else
        run [pushMessage Assistant
               (''Got it. Which task should I delete?'' @ nl @ numberedList (tasks r)),
             setFlowStep 1] a)"

definition deleteStep1 :: "State \<Rightarrow> string \<Rightarrow> State \<Rightarrow> State" where
  \<comment> \<open>the block \<open>if (flowStep === 1)\<close> of \<open>handleDeleteFlow\<close>\<close>
  "deleteStep1 r userInput a =
     (case validIndex userInput (tasks r) of
        None \<Rightarrow> pushMessage Assistant ''Please choose a valid task number.'' a
      | Some index \<Rightarrow>
          (let task = tasks r ! index
           in run [setSelectedTaskId (Some (task_id task)),
                   pushMessage Assistant
                     (''Just to confirm, delete \"'' @ title task @ ''\" due '' @ due task
                        @ ''? (yes/no)''),
                   setButtons [qa ''Yes, delete'' ''yes'', qa ''No, keep it'' ''no''],
                   setFlowStep 2] a))"

definition deleteStep2 :: "State \<Rightarrow> string \<Rightarrow> State \<Rightarrow> State" where
  \<comment> \<open>the block \<open>if (flowStep === 2)\<close> of \<open>handleDeleteFlow\<close>\<close>
  "deleteStep2 r userInput a =
     (if falsy (selectedTaskId r) then
        run [pushMessage Assistant ''Task already gone.'', resetConversation] a
      else
        run [(if saysYes userInput then
                run [updTasks (filter (\<lambda>task. Some (task_id task) \<noteq> selectedTaskId r)),
                     pushMessage Assistant ''Done! Task removed.'']
              else pushMessage Assistant ''Okay, nothing deleted.''),
             showIdleOptions] a)"

definition handleDeleteFlow :: "State \<Rightarrow> string \<Rightarrow> State \<Rightarrow> State" where
  "handleDeleteFlow r userInput a =
     (if flowStep r = 0 then deleteStep0 r a
      else if flowStep r = 1 then deleteStep1 r userInput a
      else if flowStep r = 2 then deleteStep2 r userInput a
      else a)"

definition handleViewFlow :: "State \<Rightarrow> State \<Rightarrow> State" where
  "handleViewFlow r a =
     (if length (tasks r) = 0 then
        run [pushMessage Assistant ''You do not have any tasks yet. Ready to add one?'',
             resetConversation] a
      else
        run [pushMessage Assistant
               (''Here is what is on your list:'' @ nl @ bulletList (tasks r)),
             showIdleOptions] a)"

section \<open>Routing and the entry point\<close>

definition mentions :: "string \<Rightarrow> string \<Rightarrow> bool" where
  \<comment> \<open>\<open>intent.includes(kw)\<close> for \<open>intent = userInput.trim().toLowerCase()\<close>\<close>
  "mentions userInput kw = includesStr (toLowerCase (trim userInput)) kw"

definition routeInput :: "string \<Rightarrow> State \<Rightarrow> string \<Rightarrow> State \<Rightarrow> State" where
  "routeInput uuid r userInput a =
     (if action r = Idle then
        (if mentions userInput ''add'' then
           run [setAction Add, setFlowStep 0, setButtons [],
                handleAddFlow uuid r []] a
         else if mentions userInput ''update'' then
           run [setAction Update, setFlowStep 0, setButtons [],
                handleUpdateFlow r []] a
         else if mentions userInput ''delete'' \<or> mentions userInput ''remove'' then
           run [setAction Delete, setFlowStep 0, setButtons [],
                handleDeleteFlow r []] a
         else if mentions userInput ''view'' \<or> mentions userInput ''show''
                 \<or> mentions userInput ''list'' then
           run [setAction View, setFlowStep 0, setButtons [], handleViewFlow r] a
         else
           run [pushMessage Assistant
                  ''I can add, update, delete, or show tasks. Which one do you need?'',
                setButtons idleActions] a)
      else if action r = Add then handleAddFlow uuid r userInput a
      else if action r = Update then handleUpdateFlow r userInput a
      else if action r = Delete then handleDeleteFlow r userInput a
      else if action r = View then handleViewFlow r a
      else a)"

text \<open>
  \<open>handleSend(value?)\<close>: a quick-action button passes its value, the input box passes
  nothing and the text of the box is taken, trimmed. One call is one turn of the engine:
  the state of the render is both the snapshot and the start of the accumulator.
  \<open>uuid\<close> is the identifier \<open>crypto.randomUUID()\<close> hands out in this turn, should the
  turn create a task.
\<close>

definition messageText :: "string option \<Rightarrow> State \<Rightarrow> string" where
  \<comment> \<open>\<open>value ?? input.trim()\<close>\<close>
  "messageText v s = (case v of None \<Rightarrow> trim (input s) | Some x \<Rightarrow> x)"

definition handleSend :: "string \<Rightarrow> string option \<Rightarrow> State \<Rightarrow> State" where
  "handleSend uuid v s =
     (if messageText v s = [] then s
      else run [pushMessage User (messageText v s), setInput [],
                routeInput uuid s (messageText v s)] s)"

text \<open>
  The page calls \<open>handleSend\<close> in three places: a quick-action button passes its own
  value; the Enter key and the Send button pass nothing, after the \<open>onChange\<close> handler
  of the box has stored the typed text with \<open>setInput\<close>.
\<close>

definition submitText :: "string \<Rightarrow> string \<Rightarrow> State \<Rightarrow> State" where
  \<comment> \<open>the user types \<open>txt\<close> into the box and presses Enter\<close>
  "submitText uuid txt s = handleSend uuid None (setInput txt s)"

definition tapButton :: "string \<Rightarrow> QuickAction \<Rightarrow> State \<Rightarrow> State" where
  \<comment> \<open>the user taps a quick-action button\<close>
  "tapButton uuid b s = handleSend uuid (Some (btn_value b)) s"

fun turns :: "(string \<times> string) list \<Rightarrow> State \<Rightarrow> State" where
  \<comment> \<open>a conversation: the texts typed, each with the identifier its turn may hand out\<close>
  "turns [] s = s"
| "turns ((uuid, txt) # rest) s = turns rest (submitText uuid txt s)"

section \<open>Reachable states and observations\<close>

text \<open>
  The states the page can be in: it starts in \<open>initialState\<close> with whatever task list
  the startup read back; the user edits the text box; and every submission is one turn,
  either the Enter key or the Send button (no value, the text of the box is taken) or a
  tap on one of the buttons on offer (its value).
\<close>

inductive reachable :: "State \<Rightarrow> bool" where
  start: "reachable (initialState\<lparr>tasks := ts\<rparr>)"
| typing: "reachable s \<Longrightarrow> reachable (setInput x s)"
| enter: "reachable s \<Longrightarrow> reachable (handleSend uuid None s)"
| tap: "reachable s \<Longrightarrow> b \<in> set (buttons s) \<Longrightarrow> reachable (tapButton uuid b s)"

definition idleAtZero :: "State \<Rightarrow> bool" where
  \<comment> \<open>between flows the step counter is 0\<close>
  "idleAtZero s = (action s = Idle \<longrightarrow> flowStep s = 0)"

definition entered :: "string option \<Rightarrow> bool" where
  \<comment> \<open>a draft field that holds a trimmed, non-empty text\<close>
  "entered f = (case f of None \<Rightarrow> False | Some x \<Rightarrow> x \<noteq> [] \<and> trim x = x)"

definition draftEntered :: "State \<Rightarrow> bool" where
  \<comment> \<open>in the Add flow the title is entered from step 2 on, the due date from step 3 on\<close>
  "draftEntered s =
     (action s = Add \<longrightarrow>
        (2 \<le> flowStep s \<longrightarrow> entered (p_title (pendingTask s)))
        \<and> (3 \<le> flowStep s \<longrightarrow> entered (p_due (pendingTask s))))"


definition plainButtons :: "QuickAction list \<Rightarrow> bool" where
  \<comment> \<open>no button carries a value that is empty or all white space\<close>
  "plainButtons bs = (\<forall>b\<in>set bs. trim (btn_value b) \<noteq> [])"

definition userSaid :: "string \<Rightarrow> Message" where
  "userSaid c = \<lparr>role = User, content = c\<rparr>"

definition assistantSaid :: "string \<Rightarrow> Message" where
  "assistantSaid c = \<lparr>role = Assistant, content = c\<rparr>"

definition selectedAt :: "nat \<Rightarrow> State \<Rightarrow> State \<Rightarrow> bool" where
  \<comment> \<open>the turn from \<open>s\<close> to \<open>s'\<close> selected the task at position \<open>i\<close> of the store and
      moved on to step 2\<close>
  "selectedAt i s s' =
     (selectedTaskId s' = Some (task_id (tasks s ! i)) \<and> flowStep s' = 2
      \<and> action s' = action s \<and> tasks s' = tasks s)"

definition rePrompted :: "string \<Rightarrow> string \<Rightarrow> State \<Rightarrow> State \<Rightarrow> bool" where
  \<comment> \<open>the turn only logged the user's text and the assistant's prompt (and emptied the
      text box): intent, step, draft, selection, field, buttons and store are as before\<close>
  "rePrompted said prompt s s' =
     (s' = s\<lparr>messages := messages s @ [userSaid said, assistantSaid prompt], input := []\<rparr>)"


definition selectionInStore :: "State \<Rightarrow> bool" where
  "selectionInStore s = (\<exists>t\<in>set (tasks s). Some (task_id t) = selectedTaskId s)"

definition selectionKept :: "State \<Rightarrow> bool" where
  \<comment> \<open>from the step after the selection on, the Update and Delete flows hold the id of a
      task of the store\<close>
  "selectionKept s =
     ((action s = Update \<or> action s = Delete) \<and> 2 \<le> flowStep s \<longrightarrow> selectionInStore s)"

definition indexPrompt :: "Action \<Rightarrow> string" where
  "indexPrompt act =
     (if act = Update then ''Please pick a valid task number.''
      else ''Please choose a valid task number.'')"

section \<open>Persistence\<close>

text \<open>
  The store is kept in one slot of \<open>localStorage\<close> as JSON text. \<open>JSON.stringify\<close> and
  \<open>JSON.parse\<close> belong to the platform, not to the repository; they are modelled here
  after the language standard, as far as the page uses them: \<open>JSON_stringify\<close> serializes
  an array of task objects (no indentation, properties in creation order, strings quoted
  as \<open>QuoteJSONString\<close> does), and \<open>JSON_parse\<close> is a parser for the whole JSON grammar.

  A parsed string is a list of code units (an escape of the form \<open>uXXXX\<close> can denote any),
  a parsed number is kept as its literal text, and an object is the list of its members
  as written. The parser recurses on a fuel counter; \<open>JSON_parse\<close> starts it with more fuel
  than any text can use (lemma \<open>JSON_parse_fuel\<close>) and its answer is the same for every
  larger amount (lemma \<open>JSON_parse_any_fuel\<close>), so \<open>None\<close> is exactly a \<open>SyntaxError\<close>.
\<close>

datatype json =
    JNull
  | JBool bool
  | JNumber string
  | JString "nat list"
  | JArray "json list"
  | JObject "(nat list \<times> json) list"

datatype 'a outcome = Ok 'a | SyntaxError | OutOfFuel

definition units :: "string \<Rightarrow> nat list" where
  "units s = map of_char s"

definition dquote :: char where "dquote = CHR 0x22"
definition backslash :: char where "backslash = CHR 0x5C"

definition hexDigit :: "nat \<Rightarrow> char" where
  "hexDigit n = (if n < 10 then char_of (48 + n) else char_of (87 + n))"

definition quoteChar :: "char \<Rightarrow> string" where
  "quoteChar c =
     (let n = (of_char c :: nat)
      in if n = 8 then [backslash, CHR ''b'']
         else if n = 9 then [backslash, CHR ''t'']
         else if n = 10 then [backslash, CHR ''n'']
         else if n = 12 then [backslash, CHR ''f'']
         else if n = 13 then [backslash, CHR ''r'']
         else if n = 34 then [backslash, dquote]
         else if n = 92 then [backslash, backslash]
         else if n < 32 then
           [backslash, CHR ''u'', CHR ''0'', CHR ''0'', hexDigit (n div 16), hexDigit (n mod 16)]
         else [c])"

definition quoteJSONString :: "string \<Rightarrow> string" where
  "quoteJSONString s = [dquote] @ concat (map quoteChar s) @ [dquote]"

definition isJsonWhiteSpace :: "char \<Rightarrow> bool" where
  "isJsonWhiteSpace c = (of_char c \<in> {9::nat, 10, 13, 32})"

definition skipWs :: "string \<Rightarrow> string" where
  "skipWs cs = dropWhile isJsonWhiteSpace cs"

definition hexValue :: "char \<Rightarrow> nat option" where
  "hexValue c =
     (let n = (of_char c :: nat)
      in if 48 \<le> n \<and> n \<le> 57 then Some (n - 48)
         else if 97 \<le> n \<and> n \<le> 102 then Some (n - 87)
         else if 65 \<le> n \<and> n \<le> 70 then Some (n - 55)
         else None)"

definition hex4 :: "char \<Rightarrow> char \<Rightarrow> char \<Rightarrow> char \<Rightarrow> nat option" where
  "hex4 a b c d =
     (case (hexValue a, hexValue b, hexValue c, hexValue d) of
        (Some w, Some x, Some y, Some z) \<Rightarrow> Some (((w * 16 + x) * 16 + y) * 16 + z)
      | _ \<Rightarrow> None)"

definition unescape :: "char \<Rightarrow> nat option" where
  "unescape e =
     (if e = dquote then Some 34
      else if e = backslash then Some 92
      else if e = CHR ''/'' then Some 47
      else if e = CHR ''b'' then Some 8
      else if e = CHR ''f'' then Some 12
      else if e = CHR ''n'' then Some 10
      else if e = CHR ''r'' then Some 13
      else if e = CHR ''t'' then Some 9
      else None)"

definition consUnit :: "nat \<Rightarrow> (nat list \<times> string) option \<Rightarrow> (nat list \<times> string) option" where
  "consUnit n r = (case r of None \<Rightarrow> None | Some (ns, rest) \<Rightarrow> Some (n # ns, rest))"

fun parseStringBody :: "string \<Rightarrow> (nat list \<times> string) option" where
  "parseStringBody [] = None"
| "parseStringBody (c # cs) =
     (if c = dquote then Some ([], cs)
      else if c = backslash then
        (case cs of
           [] \<Rightarrow> None
         | e # rest \<Rightarrow>
             if e = CHR ''u'' then
               (case rest of
                  h1 # h2 # h3 # h4 # rest' \<Rightarrow>
                    (case hex4 h1 h2 h3 h4 of
                       None \<Rightarrow> None
                     | Some n \<Rightarrow> consUnit n (parseStringBody rest'))
                | _ \<Rightarrow> None)
             else
               (case unescape e of
                  None \<Rightarrow> None
                | Some n \<Rightarrow> consUnit n (parseStringBody rest)))
      else if (of_char c :: nat) < 32 then None
      else consUnit (of_char c) (parseStringBody cs))"

definition digitRun :: "string \<Rightarrow> (string \<times> string) option" where
  \<comment> \<open>a non-empty run of decimal digits and what follows it\<close>
  "digitRun cs =
     (if takeWhile isDigit cs = [] then None
      else Some (takeWhile isDigit cs, dropWhile isDigit cs))"

definition parseInteger :: "string \<Rightarrow> (string \<times> string) option" where
  \<comment> \<open>\<open>0\<close>, or a digit run that does not start with \<open>0\<close>\<close>
  "parseInteger cs =
     (case cs of
        [] \<Rightarrow> None
      | c # rest \<Rightarrow> if c = CHR ''0'' then Some ([c], rest) else digitRun cs)"

definition parseFraction :: "string \<Rightarrow> (string \<times> string) option" where
  \<comment> \<open>nothing, or \<open>.\<close> and a digit run\<close>
  "parseFraction cs =
     (case cs of
        [] \<Rightarrow> Some ([], cs)
      | c # rest \<Rightarrow>
          if c = CHR ''.'' then
            (case digitRun rest of None \<Rightarrow> None | Some (ds, r) \<Rightarrow> Some (c # ds, r))
          else Some ([], cs))"

definition parseExponent :: "string \<Rightarrow> (string \<times> string) option" where
  \<comment> \<open>nothing, or \<open>e\<close> or \<open>E\<close>, an optional sign and a digit run\<close>
  "parseExponent cs =
     (case cs of
        [] \<Rightarrow> Some ([], cs)
      | c # rest \<Rightarrow>
          if c = CHR ''e'' \<or> c = CHR ''E'' then
            (case rest of
               [] \<Rightarrow> None
             | sg # rest' \<Rightarrow>
                 if sg = CHR ''+'' \<or> sg = CHR ''-'' then
                   (case digitRun rest' of
                      None \<Rightarrow> None
                    | Some (ds, r) \<Rightarrow> Some (c # sg # ds, r))
                 else
                   (case digitRun rest of None \<Rightarrow> None | Some (ds, r) \<Rightarrow> Some (c # ds, r)))
          else Some ([], cs))"

definition parseNumber :: "string \<Rightarrow> (string \<times> string) option" where
  "parseNumber cs =
     (let (sign, r0) = (case cs of
                          [] \<Rightarrow> ([], cs)
                        | c # rest \<Rightarrow> if c = CHR ''-'' then ([c], rest) else ([], cs))
      in case parseInteger r0 of
           None \<Rightarrow> None
         | Some (ip, r1) \<Rightarrow>
             (case parseFraction r1 of
                None \<Rightarrow> None
              | Some (fp, r2) \<Rightarrow>
                  (case parseExponent r2 of
                     None \<Rightarrow> None
                   | Some (ep, r3) \<Rightarrow> Some (sign @ ip @ fp @ ep, r3))))"

definition andThen :: "'a outcome \<Rightarrow> ('a \<Rightarrow> 'b outcome) \<Rightarrow> 'b outcome" where
  "andThen x f = (case x of Ok v \<Rightarrow> f v | SyntaxError \<Rightarrow> SyntaxError | OutOfFuel \<Rightarrow> OutOfFuel)"

definition orSyntaxError :: "'a option \<Rightarrow> 'a outcome" where
  "orSyntaxError x = (case x of None \<Rightarrow> SyntaxError | Some v \<Rightarrow> Ok v)"

fun parseValue :: "nat \<Rightarrow> string \<Rightarrow> (json \<times> string) outcome"
  and parseElements :: "nat \<Rightarrow> string \<Rightarrow> (json list \<times> string) outcome"
  and parseMembers :: "nat \<Rightarrow> string \<Rightarrow> ((nat list \<times> json) list \<times> string) outcome"
where
  "parseValue 0 cs = OutOfFuel"
| "parseValue (Suc n) cs =
     (case skipWs cs of
        [] \<Rightarrow> SyntaxError
      | c # rest \<Rightarrow>
          if c = dquote then
            andThen (orSyntaxError (parseStringBody rest)) (\<lambda>(s, r). Ok (JString s, r))
          else if c = CHR ''['' then
            (case skipWs rest of
               [] \<Rightarrow> SyntaxError
             | d # r \<Rightarrow>
                 if d = CHR '']'' then Ok (JArray [], r)
                 else andThen (parseElements n rest) (\<lambda>(vs, r'). Ok (JArray vs, r')))
          else if c = CHR ''{'' then
            (case skipWs rest of
               [] \<Rightarrow> SyntaxError
             | d # r \<Rightarrow>
                 if d = CHR ''}'' then Ok (JObject [], r)
                 else andThen (parseMembers n rest) (\<lambda>(ms, r'). Ok (JObject ms, r')))
          else if startsWith (c # rest) ''true'' then Ok (JBool True, drop 4 (c # rest))
          else if startsWith (c # rest) ''false'' then Ok (JBool False, drop 5 (c # rest))
          else if startsWith (c # rest) ''null'' then Ok (JNull, drop 4 (c # rest))
          else andThen (orSyntaxError (parseNumber (c # rest))) (\<lambda>(lit, r). Ok (JNumber lit, r)))"
| "parseElements 0 cs = OutOfFuel"
| "parseElements (Suc n) cs =
     andThen (parseValue n cs) (\<lambda>(v, r).
       case skipWs r of
         [] \<Rightarrow> SyntaxError
       | c # r' \<Rightarrow>
           if c = CHR '','' then andThen (parseElements n r') (\<lambda>(vs, r''). Ok (v # vs, r''))
           else if c = CHR '']'' then Ok ([v], r')
           else SyntaxError)"
| "parseMembers 0 cs = OutOfFuel"
| "parseMembers (Suc n) cs =
     (case skipWs cs of
        [] \<Rightarrow> SyntaxError
      | q # r0 \<Rightarrow>
          if q \<noteq> dquote then SyntaxError
          else
            andThen (orSyntaxError (parseStringBody r0)) (\<lambda>(k, r1).
              case skipWs r1 of
                [] \<Rightarrow> SyntaxError
              | colon # r2 \<Rightarrow>
                  if colon \<noteq> CHR '':'' then SyntaxError
                  else
                    andThen (parseValue n r2) (\<lambda>(v, r3).
                      case skipWs r3 of
                        [] \<Rightarrow> SyntaxError
                      | c # r4 \<Rightarrow>
                          if c = CHR '','' then
                            andThen (parseMembers n r4) (\<lambda>(ms, r5). Ok ((k, v) # ms, r5))
                          else if c = CHR ''}'' then Ok ([(k, v)], r4)
                          else SyntaxError)))"

declare parseValue.simps [simp del] parseElements.simps [simp del] parseMembers.simps [simp del]

definition JSON_parse :: "string \<Rightarrow> json option" where
  "JSON_parse text =
     (case parseValue (2 * length text + 1) text of
        Ok (v, r) \<Rightarrow> if skipWs r = [] then Some v else None
      | SyntaxError \<Rightarrow> None
      | OutOfFuel \<Rightarrow> None)"

definition property :: "string \<Rightarrow> string \<Rightarrow> string" where
  \<comment> \<open>one member of an object: the quoted key, a colon, the text of the value\<close>
  "property k valueText = quoteJSONString k @ '':'' @ valueText"

definition stringifyTask :: "Task \<Rightarrow> string" where
  \<comment> \<open>the own properties of a task in the order of their creation\<close>
  "stringifyTask t =
     ''{''
       @ join '',''
           [property ''id'' (quoteJSONString (task_id t)),
            property ''title'' (quoteJSONString (title t)),
            property ''due'' (quoteJSONString (due t)),
            property ''priority'' (quoteJSONString (priority t)),
            property ''reminder''
              (case reminder t of None \<Rightarrow> ''null'' | Some x \<Rightarrow> quoteJSONString x)]
       @ ''}''"

definition JSON_stringify :: "Task list \<Rightarrow> string" where
  "JSON_stringify ts = ''['' @ join '','' (map stringifyTask ts) @ '']''"

text \<open>The JSON value that \<open>JSON_stringify\<close> denotes for a task.\<close>

definition optionText :: "string option \<Rightarrow> string" where
  "optionText x = (case x of None \<Rightarrow> ''null'' | Some y \<Rightarrow> quoteJSONString y)"

definition optionJson :: "string option \<Rightarrow> json" where
  "optionJson x = (case x of None \<Rightarrow> JNull | Some y \<Rightarrow> JString (units y))"

definition taskJson :: "Task \<Rightarrow> json" where
  "taskJson t =
     JObject [(units ''id'', JString (units (task_id t))),
              (units ''title'', JString (units (title t))),
              (units ''due'', JString (units (due t))),
              (units ''priority'', JString (units (priority t))),
              (units ''reminder'', optionJson (reminder t))]"

definition fromUnits :: "nat list \<Rightarrow> string option" where
  "fromUnits ns = (if \<forall>n\<in>set ns. n < 256 then Some (map char_of ns) else None)"

definition jsonToTask :: "json \<Rightarrow> Task option" where
  "jsonToTask j =
     (case j of
        JObject [(k1, JString a), (k2, JString b), (k3, JString c), (k4, JString d), (k5, e)] \<Rightarrow>
          if k1 = units ''id'' \<and> k2 = units ''title'' \<and> k3 = units ''due''
             \<and> k4 = units ''priority'' \<and> k5 = units ''reminder''
          then
            (case (fromUnits a, fromUnits b, fromUnits c, fromUnits d, e) of
               (Some a', Some b', Some c', Some d', JNull) \<Rightarrow>
                 Some \<lparr>task_id = a', title = b', due = c', priority = d', reminder = None\<rparr>
             | (Some a', Some b', Some c', Some d', JString r) \<Rightarrow>
                 (case fromUnits r of
                    None \<Rightarrow> None
                  | Some r' \<Rightarrow>
                      Some \<lparr>task_id = a', title = b', due = c', priority = d',
                            reminder = Some r'\<rparr>)
             | _ \<Rightarrow> None)
          else None
      | _ \<Rightarrow> None)"

fun jsonToTasks :: "json list \<Rightarrow> Task list option" where
  "jsonToTasks [] = Some []"
| "jsonToTasks (j # js) =
     (case jsonToTask j of
        None \<Rightarrow> None
      | Some t \<Rightarrow> (case jsonToTasks js of None \<Rightarrow> None | Some ts \<Rightarrow> Some (t # ts)))"

text \<open>
  The two effects of the page. Startup reads the slot; a missing or empty value, a
  syntax error (caught and logged) and a value that is not an array leave the store
  empty. An array is stored as it is, without any validation. The model covers the
  arrays whose elements are task objects of the typed model: the five properties in
  creation order, strings over code units below 256, \<open>reminder\<close> a string or \<open>null\<close>
  (\<open>Loaded\<close>); any other array is outside the typed model (\<open>LoadedUntyped\<close>). After every
  render in which the store changed, the slot is rewritten with the whole store.
\<close>

datatype rehydration = KeptEmpty | Loaded "Task list" | LoadedUntyped "json list"

definition rehydrate :: "string option \<Rightarrow> rehydration" where
  "rehydrate stored =
     (case stored of
        None \<Rightarrow> KeptEmpty
      | Some text \<Rightarrow>
          if text = [] then KeptEmpty
          else
            (case JSON_parse text of
               None \<Rightarrow> KeptEmpty
             | Some parsed \<Rightarrow>
                 (case parsed of
                    JArray vs \<Rightarrow>
                      (case jsonToTasks vs of
                         None \<Rightarrow> LoadedUntyped vs
                       | Some ts \<Rightarrow> Loaded ts)
                  | _ \<Rightarrow> KeptEmpty)))"

definition persist :: "Task list \<Rightarrow> string option" where
  \<comment> \<open>the slot after \<open>localStorage.setItem(key, JSON.stringify(tasks))\<close>\<close>
  "persist ts = Some (JSON_stringify ts)"

definition startup :: "string option \<Rightarrow> State option" where
  \<comment> \<open>the state once the effects of the first render have run; \<open>None\<close> when the store
      is outside the typed model\<close>
  "startup stored =
     (case rehydrate stored of
        KeptEmpty \<Rightarrow> Some initialState
      | Loaded ts \<Rightarrow> Some (initialState\<lparr>tasks := ts\<rparr>)
      | LoadedUntyped vs \<Rightarrow> None)"

section \<open>The invariant of the store\<close>

definition storeOk :: "Task list \<Rightarrow> bool" where
  \<comment> \<open>ids pairwise distinct, every priority one of the three values\<close>
  "storeOk ts = (distinct (map task_id ts) \<and> (\<forall>t\<in>set ts. priority t \<in> set priorityOptions))"

definition draftOk :: "PartialTask \<Rightarrow> bool" where
  \<comment> \<open>the draft carries no id, and no priority but one of the three values\<close>
  "draftOk p =
     (p_id p = None
      \<and> (case p_priority p of None \<Rightarrow> True | Some x \<Rightarrow> x \<in> set priorityOptions))"

definition wellFormed :: "State \<Rightarrow> bool" where
  "wellFormed s = (storeOk (tasks s) \<and> draftOk (pendingTask s))"

text \<open>
  The states that the page reaches from \<open>s0\<close> when the identifier that
  \<open>crypto.randomUUID()\<close> hands out in a turn is never an id of the store already.
\<close>

inductive freshRun :: "State \<Rightarrow> State \<Rightarrow> bool" where
  start: "freshRun s0 s0"
| typing: "freshRun s0 s \<Longrightarrow> freshRun s0 (setInput x s)"
| enter: "freshRun s0 s \<Longrightarrow> uuid \<notin> task_id ` set (tasks s)
          \<Longrightarrow> freshRun s0 (handleSend uuid None s)"
| tap: "freshRun s0 s \<Longrightarrow> uuid \<notin> task_id ` set (tasks s) \<Longrightarrow> b \<in> set (buttons s)
        \<Longrightarrow> freshRun s0 (tapButton uuid b s)"

fun freshTurns :: "(string \<times> string) list \<Rightarrow> State \<Rightarrow> bool" where
  \<comment> \<open>the identifier of every turn of the run is new to the store of its snapshot\<close>
  "freshTurns [] s = True"
| "freshTurns ((uuid, x) # rest) s =
     (uuid \<notin> task_id ` set (tasks s) \<and> freshTurns rest (submitText uuid x s))"

section \<open>Example states\<close>

definition exampleTask :: "string \<Rightarrow> string \<Rightarrow> Priority \<Rightarrow> Task" where
  "exampleTask i t p =
     \<lparr>task_id = i, title = t, due = ''Friday'', priority = p, reminder = None\<rparr>"

definition exampleStore :: "Task list" where
  "exampleStore = [exampleTask ''id-a'' ''Walk'' ''Low'', exampleTask ''id-b'' ''Read'' ''High'']"

definition inFlow :: "Action \<Rightarrow> nat \<Rightarrow> Task list \<Rightarrow> State" where
  \<comment> \<open>a state in the middle of a flow, nothing selected and no draft yet\<close>
  "inFlow act n ts =
     initialState\<lparr>tasks := ts, action := act, flowStep := n, buttons := []\<rparr>"

definition oneTask :: "Task list" where
  "oneTask = [exampleTask ''id-a'' ''Walk'' ''Low'']"

definition idleAgain :: "Message list \<Rightarrow> State \<Rightarrow> State" where
  \<comment> \<open>the accumulator after a turn that logged \<open>ms\<close> and reset the conversation\<close>
  "idleAgain ms a =
     a\<lparr>messages := messages a @ ms, action := Idle, flowStep := 0,
       pendingTask := defaultDraft, selectedTaskId := None, pendingField := None,
       buttons := idleActions\<rparr>"

definition started :: "Action \<Rightarrow> Message list \<Rightarrow> State \<Rightarrow> State" where
  \<comment> \<open>the accumulator after a turn that entered the flow \<open>act\<close>, logged \<open>ms\<close> and waits
      at step 1 with no buttons\<close>
  "started act ms a =
     a\<lparr>messages := messages a @ ms, action := act, flowStep := 1, buttons := []\<rparr>"

definition dirtySlot :: string where
  \<comment> \<open>a well-formed slot: two task objects with the same id, one priority \<open>Urgent\<close>\<close>
  "dirtySlot =
     ''[{\"id\":\"a\",\"title\":\"Walk\",\"due\":\"Friday\",\"priority\":\"Urgent\",\"reminder\":null},''
     @ ''{\"id\":\"a\",\"title\":\"Read\",\"due\":\"Friday\",\"priority\":\"Low\",\"reminder\":\"9am\"}]''"

definition dirtyStore :: "Task list" where
  "dirtyStore =
     [\<lparr>task_id = ''a'', title = ''Walk'', due = ''Friday'', priority = ''Urgent'',
       reminder = None\<rparr>,
      \<lparr>task_id = ''a'', title = ''Read'', due = ''Friday'', priority = ''Low'',
       reminder = Some ''9am''\<rparr>]"


definition emptyIdSlot :: string where
  \<comment> \<open>a well-formed slot: one task object whose id is the empty string\<close>
  "emptyIdSlot =
     ''[{\"id\":\"\",\"title\":\"Walk\",\"due\":\"Friday\",\"priority\":\"Low\",\"reminder\":null}]''"

definition emptyIdStore :: "Task list" where
  "emptyIdStore = [exampleTask [] ''Walk'' ''Low'']"


definition twinSlot :: string where
  \<comment> \<open>a well-formed slot: two task objects with the same id\<close>
  "twinSlot =
     ''[{\"id\":\"a\",\"title\":\"Walk\",\"due\":\"Friday\",\"priority\":\"Low\",\"reminder\":null},''
     @ ''{\"id\":\"a\",\"title\":\"Read\",\"due\":\"Friday\",\"priority\":\"High\",\"reminder\":null}]''"

definition twinStore :: "Task list" where
  "twinStore = [exampleTask ''a'' ''Walk'' ''Low'', exampleTask ''a'' ''Read'' ''High'']"

section \<open>Basic facts\<close>

lemmas setter_defs =
  setInput_def setTasks_def updTasks_def setAction_def setFlowStep_def setPendingTask_def
  updPendingTask_def setSelectedTaskId_def setPendingField_def setButtons_def
  pushMessage_def

lemma run_Nil [simp]: "run [] a = a"
  by (simp add: run_def)

lemma run_Cons [simp]: "run (f # fs) a = run fs (f a)"
  by (simp add: run_def)

lemma resetConversation_eq:
  "resetConversation a =
     a\<lparr>action := Idle, flowStep := 0, pendingTask := defaultDraft, selectedTaskId := None,
       pendingField := None, buttons := idleActions\<rparr>"
  by (simp add: resetConversation_def setter_defs)

lemma showIdleOptions_eq:
  "showIdleOptions a =
     a\<lparr>messages := messages a @
          [\<lparr>role = Assistant,
            content = ''Anything else I can help with? Add, update, delete, or view tasks.''\<rparr>],
       action := Idle, flowStep := 0, pendingTask := defaultDraft, selectedTaskId := None,
       pendingField := None, buttons := idleActions\<rparr>"
  by (simp add: showIdleOptions_def resetConversation_eq setter_defs)

subsection \<open>Trimming\<close>

lemma trim_Nil_iff: "trim s = [] \<longleftrightarrow> (\<forall>c\<in>set s. isWhiteSpace c)"
proof -
  have "trim s = [] \<longleftrightarrow> dropWhile isWhiteSpace s = []"
  proof
    assume "trim s = []"
    then have all: "\<forall>c\<in>set (dropWhile isWhiteSpace s). isWhiteSpace c"
      by (simp add: trim_def dropWhile_eq_Nil_conv)
    show "dropWhile isWhiteSpace s = []"
    proof (rule ccontr)
      assume ne: "dropWhile isWhiteSpace s \<noteq> []"
      then have "\<not> isWhiteSpace (hd (dropWhile isWhiteSpace s))"
        by (rule hd_dropWhile)
      with ne all show False
        by (metis hd_in_set)
    qed
  next
    assume "dropWhile isWhiteSpace s = []"
    then show "trim s = []"
      by (simp add: trim_def del: dropWhile_eq_Nil_conv)
  qed
  then show ?thesis
    by (simp add: dropWhile_eq_Nil_conv)
qed

lemma route_flow:
  "action r = Add \<Longrightarrow> routeInput uuid r u a = handleAddFlow uuid r u a"
  "action r = Update \<Longrightarrow> routeInput uuid r u a = handleUpdateFlow r u a"
  "action r = Delete \<Longrightarrow> routeInput uuid r u a = handleDeleteFlow r u a"
  by (simp_all add: routeInput_def)

lemma handleSend_eq:
  "messageText v s \<noteq> [] \<Longrightarrow>
   handleSend uuid v s =
     routeInput uuid s (messageText v s)
       (s\<lparr>messages := messages s @ [userSaid (messageText v s)], input := []\<rparr>)"
  by (simp add: handleSend_def setter_defs userSaid_def)

subsection \<open>Decimal numerals and the index pattern\<close>

lemma digit_char: "d < 10 \<Longrightarrow> isDigit (char_of (48 + d)) \<and> digitValue (char_of (48 + d)) = d"
  by (simp add: isDigit_def digitValue_def)

lemma showNat_not_Nil: "showNat n \<noteq> []"
  by (subst showNat.simps) simp

lemma showNat_digits: "c \<in> set (showNat n) \<Longrightarrow> isDigit c"
proof (induction n rule: showNat.induct)
  case (1 n)
  show ?case
  proof (cases "n < 10")
    case True
    with "1.prems" show ?thesis
      by (subst (asm) showNat.simps) (simp add: digit_char)
  next
    case False
    with "1.prems" have "c \<in> set (showNat (n div 10)) \<or> c = char_of (48 + n mod 10)"
      by (subst (asm) showNat.simps) auto
    with False "1.IH" show ?thesis
      by (auto simp: digit_char)
  qed
qed

lemma parseDecimal_snoc: "parseDecimal (ds @ [c]) = 10 * parseDecimal ds + digitValue c"
  by (simp add: parseDecimal_def)

lemma parseDecimal_showNat: "parseDecimal (showNat n) = n"
proof (induction n rule: showNat.induct)
  case (1 n)
  show ?case
  proof (cases "n < 10")
    case True
    then show ?thesis
      by (subst showNat.simps) (simp add: parseDecimal_def digit_char)
  next
    case False
    then have "parseDecimal (showNat n) = 10 * parseDecimal (showNat (n div 10)) + n mod 10"
      by (subst showNat.simps) (simp add: parseDecimal_snoc digit_char)
    with False "1.IH" show ?thesis
      by simp
  qed
qed

lemma takeWhile_digits:
  assumes "\<forall>c\<in>set ds. isDigit c" and "rest = [] \<or> \<not> isDigit (hd rest)"
  shows "takeWhile isDigit (ds @ rest) = ds"
proof -
  from assms(2) have "takeWhile isDigit rest = []"
    by (cases rest) auto
  with assms(1) show ?thesis
    by (simp add: takeWhile_append2)
qed

lemma matchIndex_iff:
  "matchIndex t = Some ds \<longleftrightarrow>
     ds \<noteq> [] \<and> (\<forall>c\<in>set ds. isDigit c)
     \<and> (\<exists>rest. (t = ds @ rest \<or> t = ''#'' @ ds @ rest)
                \<and> (rest = [] \<or> \<not> isDigit (hd rest)))"
  (is "?lhs \<longleftrightarrow> ?rhs")
proof
  assume ?lhs
  define r where "r = (case t of [] \<Rightarrow> [] | c # cs \<Rightarrow> if c = CHR ''#'' then cs else t)"
  from \<open>?lhs\<close> have ds: "ds = takeWhile isDigit r" and ne: "ds \<noteq> []"
    by (auto simp: matchIndex_def r_def Let_def split: if_splits)
  have split: "r = ds @ dropWhile isDigit r"
    by (simp add: ds)
  have stop: "dropWhile isDigit r = [] \<or> \<not> isDigit (hd (dropWhile isDigit r))"
    using hd_dropWhile [of isDigit r] by blast
  have digits: "\<forall>c\<in>set ds. isDigit c"
    by (auto simp: ds dest: set_takeWhileD)
  have "t = r \<or> t = ''#'' @ r"
    by (cases t) (auto simp: r_def)
  with split stop have "\<exists>rest. (t = ds @ rest \<or> t = ''#'' @ ds @ rest)
      \<and> (rest = [] \<or> \<not> isDigit (hd rest))"
    by metis
  with ne digits show ?rhs
    by blast
next
  assume ?rhs
  then obtain rest where ne: "ds \<noteq> []" and digits: "\<forall>c\<in>set ds. isDigit c"
    and shape: "t = ds @ rest \<or> t = ''#'' @ ds @ rest"
    and stop: "rest = [] \<or> \<not> isDigit (hd rest)"
    by blast
  have tw: "takeWhile isDigit (ds @ rest) = ds"
    using digits stop by (rule takeWhile_digits)
  from ne obtain c cs where cons: "ds = c # cs"
    by (cases ds) auto
  with digits have "c \<noteq> CHR ''#''"
    by (auto simp: isDigit_def)
  from shape show ?lhs
  proof
    assume "t = ds @ rest"
    with cons \<open>c \<noteq> CHR ''#''\<close> tw ne show ?thesis
      by (simp add: matchIndex_def)
  next
    assume "t = ''#'' @ ds @ rest"
    with tw ne show ?thesis
      by (simp add: matchIndex_def)
  qed
qed

lemma matchIndex_showNat:
  "matchIndex (showNat n) = Some (showNat n) \<and> matchIndex (''#'' @ showNat n) = Some (showNat n)"
  using showNat_not_Nil [of n] showNat_digits [of _ n]
  by (simp add: matchIndex_iff) (metis append_Nil2)

lemma validIndex_eq:
  "validIndex userInput ts =
     (case matchIndex (trim userInput) of
        None \<Rightarrow> None
      | Some ds \<Rightarrow>
          if 1 \<le> parseDecimal ds \<and> parseDecimal ds \<le> length ts
          then Some (parseDecimal ds - 1) else None)"
  by (auto simp: validIndex_def parseIndex_def split: option.splits)

subsection \<open>Idle means step 0\<close>

lemma add_keeps_idleAtZero:
  "action a \<noteq> Idle \<Longrightarrow> idleAtZero (handleAddFlow uuid r u a)"
  by (auto simp: idleAtZero_def handleAddFlow_def addStep0_def addStep1_def addStep2_def
      addStep3_def addStep4_def addStep5_def addStep6_def showIdleOptions_eq setter_defs
      Let_def split: option.splits)

lemma updateDelta_early:
  "updateDelta r u = Inl early \<Longrightarrow> action (early a) = action a"
  by (auto simp: updateDelta_def setter_defs Let_def split: if_splits option.splits)

lemma update_keeps_idleAtZero:
  "action a \<noteq> Idle \<Longrightarrow> idleAtZero (handleUpdateFlow r u a)"
  by (auto simp: idleAtZero_def handleUpdateFlow_def updateStep0_def updateStep1_def
      updateStep2_def updateStep3_def updateStep4_def updateStep5_def showIdleOptions_eq
      resetConversation_eq setter_defs Let_def updateDelta_early
      split: option.splits sum.splits)

lemma delete_keeps_idleAtZero:
  "action a \<noteq> Idle \<Longrightarrow> idleAtZero (handleDeleteFlow r u a)"
  by (auto simp: idleAtZero_def handleDeleteFlow_def deleteStep0_def deleteStep1_def
      deleteStep2_def showIdleOptions_eq resetConversation_eq setter_defs Let_def
      split: option.splits)

lemma view_resets: "idleAtZero (handleViewFlow r a)"
  by (simp add: idleAtZero_def handleViewFlow_def showIdleOptions_eq resetConversation_eq
      setter_defs)

lemma route_keeps_idleAtZero:
  assumes "idleAtZero a" and "action a = action r"
  shows "idleAtZero (routeInput uuid r u a)"
proof (cases "action r = Idle")
  case True
  with assms have "flowStep a = 0"
    by (simp add: idleAtZero_def)
  with True assms(2) show ?thesis
    by (simp add: routeInput_def add_keeps_idleAtZero update_keeps_idleAtZero
        delete_keeps_idleAtZero view_resets setter_defs)
      (simp add: idleAtZero_def)
next
  case False
  with assms(2) have "action a \<noteq> Idle"
    by simp
  with False show ?thesis
    by (cases "action r")
      (simp_all add: routeInput_def add_keeps_idleAtZero update_keeps_idleAtZero
        delete_keeps_idleAtZero view_resets)
qed

lemma handleSend_keeps_idleAtZero:
  "idleAtZero s \<Longrightarrow> idleAtZero (handleSend uuid v s)"
proof (cases "messageText v s = []")
  case True
  assume "idleAtZero s"
  with True show ?thesis
    by (simp add: handleSend_def)
next
  case False
  assume "idleAtZero s"
  then have "idleAtZero (s\<lparr>messages := messages s @ [userSaid (messageText v s)], input := []\<rparr>)"
    by (simp add: idleAtZero_def)
  then have "idleAtZero (routeInput uuid s (messageText v s)
      (s\<lparr>messages := messages s @ [userSaid (messageText v s)], input := []\<rparr>))"
    by (rule route_keeps_idleAtZero) simp
  with False show ?thesis
    by (simp add: handleSend_eq)
qed

lemma reachable_idleAtZero: "reachable s \<Longrightarrow> idleAtZero s"
proof (induction rule: reachable.induct)
  case (start ts)
  show ?case
    by (simp add: idleAtZero_def initialState_def)
next
  case (typing s v)
  then show ?case
    by (simp add: idleAtZero_def setInput_def)
next
  case (enter s uuid)
  from enter.IH show ?case
    by (rule handleSend_keeps_idleAtZero)
next
  case (tap s b uuid)
  from tap.IH show ?case
    unfolding tapButton_def by (rule handleSend_keeps_idleAtZero)
qed

lemma idle_step0: "reachable s \<Longrightarrow> action s = Idle \<Longrightarrow> flowStep s = 0"
  using reachable_idleAtZero [of s] by (simp add: idleAtZero_def)



subsection \<open>Substring search, case folding and trimming\<close>

lemma startsWith_iff: "startsWith s p \<longleftrightarrow> (\<exists>q. s = p @ q)"
  by (induction s p rule: startsWith.induct) auto

lemma includesStr_iff: "includesStr s sub \<longleftrightarrow> (\<exists>p q. s = p @ sub @ q)"
proof (induction s)
  case Nil
  show ?case by auto
next
  case (Cons c cs)
  show ?case
  proof
    assume "includesStr (c # cs) sub"
    then consider "startsWith (c # cs) sub" | "includesStr cs sub"
      by auto
    then show "\<exists>p q. c # cs = p @ sub @ q"
    proof cases
      case 1
      then obtain q where "c # cs = sub @ q"
        by (auto simp: startsWith_iff)
      then have "c # cs = [] @ sub @ q"
        by simp
      then show ?thesis
        by blast
    next
      case 2
      with Cons.IH obtain p q where "cs = p @ sub @ q"
        by auto
      then have "c # cs = (c # p) @ sub @ q"
        by simp
      then show ?thesis
        by blast
    qed
  next
    assume "\<exists>p q. c # cs = p @ sub @ q"
    then obtain p q where eq: "c # cs = p @ sub @ q"
      by auto
    show "includesStr (c # cs) sub"
    proof (cases p)
      case Nil
      with eq have "startsWith (c # cs) sub"
        by (auto simp: startsWith_iff)
      then show ?thesis
        by simp
    next
      case (Cons x p')
      with eq have "cs = p' @ sub @ q"
        by simp
      with Cons.IH have "includesStr cs sub"
        by auto
      then show ?thesis
        by simp
    qed
  qed
qed

lemma isWhiteSpace_lowerChar: "isWhiteSpace (lowerChar c) = isWhiteSpace c"
proof -
  define n where "n = (of_char c :: nat)"
  show ?thesis
  proof (cases "(65 \<le> n \<and> n \<le> 90) \<or> (192 \<le> n \<and> n \<le> 222 \<and> n \<noteq> 215)")
    case True
    then have low: "lowerChar c = char_of (n + 32)"
      by (simp add: lowerChar_def n_def Let_def)
    from True have "(of_char (char_of (n + 32) :: char) :: nat) = n + 32"
      by auto
    with True low show ?thesis
      by (auto simp: isWhiteSpace_def n_def [symmetric])
  next
    case False
    then have "lowerChar c = c"
      by (auto simp: lowerChar_def n_def Let_def)
    then show ?thesis
      by simp
  qed
qed

lemma toLowerCase_trim: "toLowerCase (trim s) = trim (toLowerCase s)"
proof -
  have comp: "isWhiteSpace \<circ> lowerChar = isWhiteSpace"
    by (rule ext) (simp add: isWhiteSpace_lowerChar)
  show ?thesis
    by (simp add: toLowerCase_def trim_def rev_map dropWhile_map comp)
qed

lemma trim_infix: "\<exists>l t. s = l @ trim s @ t"
proof -
  define d where "d = dropWhile isWhiteSpace s"
  have "rev (takeWhile isWhiteSpace (rev d) @ dropWhile isWhiteSpace (rev d)) = rev (rev d)"
    by (simp only: takeWhile_dropWhile_id)
  then have "rev (dropWhile isWhiteSpace (rev d)) @ rev (takeWhile isWhiteSpace (rev d)) = d"
    by (simp only: rev_append rev_rev_ident)
  then have "d = trim s @ rev (takeWhile isWhiteSpace (rev d))"
    by (simp only: trim_def d_def)
  moreover have "s = takeWhile isWhiteSpace s @ d"
    by (simp add: d_def)
  ultimately have "s = takeWhile isWhiteSpace s @ trim s @ rev (takeWhile isWhiteSpace (rev d))"
    by simp
  then show ?thesis
    by blast
qed

lemma dropWhile_keeps_word:
  assumes "sub \<noteq> []" and "\<not> P (hd sub)"
  shows "\<exists>p'. dropWhile P (p @ sub @ q) = p' @ sub @ q"
proof (induction p)
  case Nil
  from assms have "dropWhile P (sub @ q) = sub @ q"
    by (cases sub) auto
  then have "dropWhile P ([] @ sub @ q) = [] @ sub @ q"
    by simp
  then show ?case
    by blast
next
  case (Cons x p)
  show ?case
  proof (cases "P x")
    case True
    with Cons.IH show ?thesis
      by simp
  next
    case False
    then have "dropWhile P ((x # p) @ sub @ q) = (x # p) @ sub @ q"
      by simp
    then show ?thesis
      by blast
  qed
qed

lemma trim_keeps_word:
  assumes "sub \<noteq> []" and "\<not> isWhiteSpace (hd sub)" and "\<not> isWhiteSpace (last sub)"
  shows "(\<exists>p q. trim s = p @ sub @ q) \<longleftrightarrow> (\<exists>p q. s = p @ sub @ q)"
proof
  assume "\<exists>p q. trim s = p @ sub @ q"
  then obtain p q where "trim s = p @ sub @ q"
    by auto
  moreover obtain l t where "s = l @ trim s @ t"
    using trim_infix by blast
  ultimately have "s = (l @ p) @ sub @ (q @ t)"
    by simp
  then show "\<exists>p q. s = p @ sub @ q"
    by blast
next
  assume "\<exists>p q. s = p @ sub @ q"
  then obtain p q where "s = p @ sub @ q"
    by auto
  then obtain p' where front: "dropWhile isWhiteSpace s = p' @ sub @ q"
    using dropWhile_keeps_word [of sub isWhiteSpace p q] assms(1,2) by auto
  have "rev sub \<noteq> []" and "\<not> isWhiteSpace (hd (rev sub))"
    using assms(1,3) by (simp_all add: hd_rev)
  then obtain q' where
    "dropWhile isWhiteSpace (rev q @ rev sub @ rev p') = q' @ rev sub @ rev p'"
    using dropWhile_keeps_word [of "rev sub" isWhiteSpace "rev q" "rev p'"] by auto
  with front have "trim s = p' @ sub @ rev q'"
    by (simp add: trim_def)
  then show "\<exists>p q. trim s = p @ sub @ q"
    by blast
qed

lemma toLowerCase_infix:
  "(\<exists>p q. toLowerCase s = p @ kw @ q) \<longleftrightarrow> (\<exists>p w q. s = p @ w @ q \<and> toLowerCase w = kw)"
proof
  assume "\<exists>p q. toLowerCase s = p @ kw @ q"
  then obtain p q where "map lowerChar s = p @ (kw @ q)"
    by (auto simp: toLowerCase_def)
  then have "\<exists>us vs. s = us @ vs \<and> p = map lowerChar us \<and> kw @ q = map lowerChar vs"
    by (simp only: map_eq_append_conv)
  then obtain p' r where s: "s = p' @ r" and "map lowerChar r = kw @ q"
    by metis
  then have "\<exists>us vs. r = us @ vs \<and> kw = map lowerChar us \<and> q = map lowerChar vs"
    by (simp only: map_eq_append_conv)
  then obtain w q' where "r = w @ q'" and "map lowerChar w = kw"
    by metis
  with s have "s = p' @ w @ q' \<and> toLowerCase w = kw"
    by (simp add: toLowerCase_def)
  then show "\<exists>p w q. s = p @ w @ q \<and> toLowerCase w = kw"
    by blast
next
  assume "\<exists>p w q. s = p @ w @ q \<and> toLowerCase w = kw"
  then obtain p w q where "s = p @ w @ q" and "toLowerCase w = kw"
    by auto
  then have "toLowerCase s = toLowerCase p @ kw @ toLowerCase q"
    by (auto simp: toLowerCase_def)
  then show "\<exists>p q. toLowerCase s = p @ kw @ q"
    by blast
qed

text \<open>
  \<open>mentions\<close> is a case-insensitive substring test: for a keyword that neither begins
  nor ends with white space, the text mentions it exactly when some stretch of the text
  lower-cases to it. (Trimming cannot cut into such a stretch.)
\<close>

lemma mentions_iff:
  assumes "kw \<noteq> []" and "\<not> isWhiteSpace (hd kw)" and "\<not> isWhiteSpace (last kw)"
  shows "mentions u kw \<longleftrightarrow> (\<exists>p w q. u = p @ w @ q \<and> toLowerCase w = kw)"
proof -
  have "mentions u kw \<longleftrightarrow> (\<exists>p q. trim (toLowerCase u) = p @ kw @ q)"
    by (simp add: mentions_def includesStr_iff toLowerCase_trim)
  also have "\<dots> \<longleftrightarrow> (\<exists>p q. toLowerCase u = p @ kw @ q)"
    using assms by (rule trim_keeps_word)
  also have "\<dots> \<longleftrightarrow> (\<exists>p w q. u = p @ w @ q \<and> toLowerCase w = kw)"
    by (rule toLowerCase_infix)
  finally show ?thesis .
qed

lemma keywords_plain:
  "kw \<in> {''add'', ''update'', ''delete'', ''remove'', ''view'', ''show'', ''list''} \<Longrightarrow>
   kw \<noteq> [] \<and> \<not> isWhiteSpace (hd kw) \<and> \<not> isWhiteSpace (last kw)"
  by (auto simp: isWhiteSpace_def)

subsection \<open>The buttons on offer\<close>

lemma plainButtons_simps:
  "plainButtons []" "plainButtons idleActions" "plainButtons priorityButtons"
  "plainButtons saveButtons" "plainButtons changeButtons"
  "plainButtons [qa ''Yes, add reminder'' ''yes'', qa ''No reminder'' ''no'']"
  "plainButtons [qa ''Update reminder'' ''update'', qa ''Remove reminder'' ''remove'']"
  "plainButtons [qa ''Yes, delete'' ''yes'', qa ''No, keep it'' ''no'']"
  by (simp_all add: plainButtons_def idleActions_def priorityButtons_def priorityOptions_def
      saveButtons_def changeButtons_def qa_def trim_def isWhiteSpace_def)

lemma updateDelta_early_buttons:
  "updateDelta r u = Inl early \<Longrightarrow> plainButtons (buttons a) \<Longrightarrow>
   plainButtons (buttons (early a))"
  by (auto simp: updateDelta_def setter_defs plainButtons_simps Let_def
      split: if_splits option.splits)

lemma flows_keep_plainButtons:
  assumes "plainButtons (buttons a)"
  shows "plainButtons (buttons (handleAddFlow uuid r u a))"
    and "plainButtons (buttons (handleUpdateFlow r u a))"
    and "plainButtons (buttons (handleDeleteFlow r u a))"
    and "plainButtons (buttons (handleViewFlow r a))"
proof -
  show "plainButtons (buttons (handleAddFlow uuid r u a))"
    using assms
    by (auto simp: handleAddFlow_def addStep0_def addStep1_def addStep2_def addStep3_def
        addStep4_def addStep5_def addStep6_def showIdleOptions_eq setter_defs
        plainButtons_simps Let_def split: option.splits)
  show "plainButtons (buttons (handleUpdateFlow r u a))"
    using assms
    by (auto simp: handleUpdateFlow_def updateStep0_def updateStep1_def updateStep2_def
        updateStep3_def updateStep4_def updateStep5_def showIdleOptions_eq
        resetConversation_eq setter_defs plainButtons_simps updateDelta_early_buttons Let_def
        split: option.splits sum.splits)
  show "plainButtons (buttons (handleDeleteFlow r u a))"
    using assms
    by (auto simp: handleDeleteFlow_def deleteStep0_def deleteStep1_def deleteStep2_def
        showIdleOptions_eq resetConversation_eq setter_defs plainButtons_simps Let_def
        split: option.splits)
  show "plainButtons (buttons (handleViewFlow r a))"
    by (simp add: handleViewFlow_def showIdleOptions_eq resetConversation_eq setter_defs
        plainButtons_simps)
qed

lemma handleSend_keeps_plainButtons:
  assumes "plainButtons (buttons s)"
  shows "plainButtons (buttons (handleSend uuid v s))"
proof (cases "messageText v s = []")
  case True
  with assms show ?thesis
    by (simp add: handleSend_def)
next
  case False
  have "plainButtons (buttons (routeInput uuid s u a))" if "plainButtons (buttons a)" for u a
    using that
    by (simp add: routeInput_def flows_keep_plainButtons setter_defs plainButtons_simps)
  with assms False show ?thesis
    by (simp add: handleSend_eq)
qed

text \<open>
  In every state the engine can reach, no button on offer carries a blank value: a tap
  never submits a blank text, only the text box can.
\<close>

lemma reachable_plainButtons: "reachable s \<Longrightarrow> plainButtons (buttons s)"
proof (induction rule: reachable.induct)
  case (start ts)
  show ?case
    by (simp add: initialState_def plainButtons_simps)
next
  case (typing s v)
  then show ?case
    by (simp add: setInput_def)
next
  case (enter s uuid)
  from enter.IH show ?case
    by (rule handleSend_keeps_plainButtons)
next
  case (tap s b uuid)
  from tap.IH show ?case
    unfolding tapButton_def by (rule handleSend_keeps_plainButtons)
qed

lemma tap_is_not_blank:
  assumes "reachable s" and "b \<in> set (buttons s)"
  shows "messageText (Some (btn_value b)) s \<noteq> []"
    and "\<not> (\<forall>c\<in>set (btn_value b). isWhiteSpace c)"
proof -
  from assms have "trim (btn_value b) \<noteq> []"
    using reachable_plainButtons [of s] by (simp add: plainButtons_def)
  then show "\<not> (\<forall>c\<in>set (btn_value b). isWhiteSpace c)"
    by (simp add: trim_Nil_iff)
  then show "messageText (Some (btn_value b)) s \<noteq> []"
    by (auto simp: messageText_def)
qed

subsection \<open>The draft of the Add flow\<close>

lemma trim_plain:
  assumes "v \<noteq> []" and "\<not> isWhiteSpace (hd v)" and "\<not> isWhiteSpace (last v)"
  shows "trim v = v"
proof -
  from assms(1,2) have front: "dropWhile isWhiteSpace v = v"
    by (cases v) auto
  from assms(1,3) have "dropWhile isWhiteSpace (rev v) = rev v"
    by (cases "rev v") (auto simp: hd_rev [symmetric])
  with front show ?thesis
    by (simp add: trim_def)
qed

lemma trim_ends:
  assumes "trim s \<noteq> []"
  shows "\<not> isWhiteSpace (hd (trim s)) \<and> \<not> isWhiteSpace (last (trim s))"
proof -
  define d where "d = dropWhile isWhiteSpace s"
  define e where "e = dropWhile isWhiteSpace (rev d)"
  have t: "trim s = rev e"
    by (simp add: trim_def d_def e_def)
  with assms have e: "e \<noteq> []"
    by simp
  then have "\<not> isWhiteSpace (hd e)"
    unfolding e_def by (rule hd_dropWhile)
  with e have last: "\<not> isWhiteSpace (last (trim s))"
    by (simp add: t last_rev)
  from e have d: "d \<noteq> []"
    by (auto simp: e_def)
  then have "\<not> isWhiteSpace (hd d)"
    unfolding d_def by (rule hd_dropWhile)
  moreover have "rev d = takeWhile isWhiteSpace (rev d) @ e"
    by (simp add: e_def)
  then have "d = rev e @ rev (takeWhile isWhiteSpace (rev d))"
    by (metis rev_append rev_rev_ident)
  with e have "hd d = hd (rev e)"
    by (metis hd_append2 rev_is_Nil_conv)
  ultimately show ?thesis
    using last by (simp add: t)
qed

lemma trim_idem: "trim (trim s) = trim s"
proof (cases "trim s = []")
  case True
  have "trim [] = []"
    by (simp add: trim_def)
  with True show ?thesis
    by simp
next
  case False
  then show ?thesis
    using trim_ends [of s] by (intro trim_plain) simp_all
qed

lemma entered_trim: "trim u \<noteq> [] \<Longrightarrow> entered (Some (trim u))"
  by (simp add: entered_def trim_idem)

lemma add_keeps_draftEntered:
  assumes "draftEntered r" and "action r = Add" and "action a = Add"
    and "pendingTask a = pendingTask r" and "flowStep a = flowStep r" and "trim u \<noteq> []"
  shows "draftEntered (handleAddFlow uuid r u a)"
  using assms
  by (auto simp: draftEntered_def handleAddFlow_def addStep0_def addStep1_def addStep2_def
      addStep3_def addStep4_def addStep5_def addStep6_def entered_trim showIdleOptions_eq
      setter_defs Let_def split: option.splits)

lemma update_leaves_Add: "action a \<noteq> Add \<Longrightarrow> action (handleUpdateFlow r u a) \<noteq> Add"
  by (auto simp: handleUpdateFlow_def updateStep0_def updateStep1_def updateStep2_def
      updateStep3_def updateStep4_def updateStep5_def showIdleOptions_eq resetConversation_eq
      setter_defs Let_def updateDelta_early split: option.splits sum.splits)

lemma delete_leaves_Add: "action a \<noteq> Add \<Longrightarrow> action (handleDeleteFlow r u a) \<noteq> Add"
  by (auto simp: handleDeleteFlow_def deleteStep0_def deleteStep1_def deleteStep2_def
      showIdleOptions_eq resetConversation_eq setter_defs Let_def split: option.splits)

lemma view_leaves_Add: "action (handleViewFlow r a) \<noteq> Add"
  by (simp add: handleViewFlow_def showIdleOptions_eq resetConversation_eq setter_defs)

lemma handleSend_keeps_draftEntered:
  assumes "draftEntered s" and "idleAtZero s" and "trim (messageText v s) \<noteq> []"
  shows "draftEntered (handleSend uuid v s)"
proof -
  define u where "u = messageText v s"
  define a where "a = s\<lparr>messages := messages s @ [userSaid u], input := []\<rparr>"
  from assms(3) have ne: "messageText v s \<noteq> []"
    by (auto simp: trim_def)
  have "draftEntered (routeInput uuid s u a)"
  proof (cases "action s")
    case Idle
    with assms(2) have zero: "flowStep s = 0"
      by (simp add: idleAtZero_def)
    have not_add: "action x \<noteq> Add \<Longrightarrow> draftEntered x" for x
      by (simp add: draftEntered_def)
    from Idle zero show ?thesis
      by (simp add: routeInput_def handleAddFlow_def addStep0_def draftEntered_def
          update_leaves_Add delete_leaves_Add view_leaves_Add not_add setter_defs a_def)
  next
    case Add
    with assms(1,3) show ?thesis
      by (simp add: route_flow a_def u_def add_keeps_draftEntered)
  next
    case Update
    then show ?thesis
      by (simp add: route_flow draftEntered_def update_leaves_Add a_def)
  next
    case Delete
    then show ?thesis
      by (simp add: route_flow draftEntered_def delete_leaves_Add a_def)
  next
    case View
    then show ?thesis
      by (simp add: routeInput_def draftEntered_def view_leaves_Add)
  qed
  with ne show ?thesis
    by (simp add: handleSend_eq u_def a_def)
qed

lemma reachable_draftEntered: "reachable s \<Longrightarrow> draftEntered s"
proof (induction rule: reachable.induct)
  case (start ts)
  show ?case
    by (simp add: draftEntered_def initialState_def)
next
  case (typing s x)
  then show ?case
    by (simp add: draftEntered_def setInput_def)
next
  case (enter s uuid)
  show ?case
  proof (cases "trim (input s) = []")
    case True
    with enter.IH show ?thesis
      by (simp add: handleSend_def messageText_def)
  next
    case False
    then have "trim (messageText None s) \<noteq> []"
      by (simp add: messageText_def trim_idem)
    with enter.IH reachable_idleAtZero [OF enter.hyps] show ?thesis
      by (intro handleSend_keeps_draftEntered)
  qed
next
  case (tap s b uuid)
  then have "trim (messageText (Some (btn_value b)) s) \<noteq> []"
    using reachable_plainButtons [of s] by (simp add: plainButtons_def messageText_def)
  with tap.IH reachable_idleAtZero [OF tap.hyps(1)] show ?case
    unfolding tapButton_def by (intro handleSend_keeps_draftEntered)
qed

text \<open>
  At the save step of the Add flow the page always holds a draft whose title and due
  date are the non-empty texts the user entered: the task gets exactly these, and the
  placeholders are never needed.
\<close>

lemma reachable_save_uses_draft:
  assumes "reachable s" and "action s = Add" and "flowStep s = 6"
  shows "\<exists>x y. p_title (pendingTask s) = Some x \<and> p_due (pendingTask s) = Some y
           \<and> x \<noteq> [] \<and> y \<noteq> []
           \<and> title (materialize uuid (pendingTask s)) = x
           \<and> due (materialize uuid (pendingTask s)) = y"
  using reachable_draftEntered [OF assms(1)] assms(2,3)
  by (auto simp: draftEntered_def entered_def materialize_def split: option.splits)

subsection \<open>The selection stays in the store\<close>

lemma validIndex_in_store: "validIndex u ts = Some i \<Longrightarrow> i < length ts"
  by (auto simp: validIndex_eq split: option.splits if_splits)

lemma selected_in_store:
  "i < length (tasks r) \<Longrightarrow> tasks a = tasks r
   \<Longrightarrow> selectionInStore (a\<lparr>selectedTaskId := Some (task_id (tasks r ! i)), messages := ms,
          buttons := bs, flowStep := n\<rparr>)"
  by (auto simp: selectionInStore_def)

lemma updateDelta_early_selection:
  "updateDelta r u = Inl early \<Longrightarrow>
   action (early a) = action a \<and> tasks (early a) = tasks a
   \<and> selectedTaskId (early a) = selectedTaskId a"
  by (auto simp: updateDelta_def setter_defs Let_def split: if_splits option.splits)

lemma update_keeps_selection:
  assumes "2 \<le> flowStep r \<longrightarrow> selectionInStore r" and "tasks a = tasks r"
    and "selectedTaskId a = selectedTaskId r" and "flowStep a = flowStep r"
  shows "selectionKept (handleUpdateFlow r u a)"
proof -
  have kept: "selectionInStore a" if "2 \<le> flowStep r"
    using that assms by (simp add: selectionInStore_def)
  consider "flowStep r = 0" | "flowStep r = 1" | "flowStep r = 2" | "flowStep r = 3"
    | "flowStep r = 4" | "flowStep r = 5" | "5 < flowStep r"
    by linarith
  then show ?thesis
  proof cases
    case 1
    then show ?thesis
      by (simp add: handleUpdateFlow_def updateStep0_def selectionKept_def
          resetConversation_eq setter_defs)
  next
    case 2
    then show ?thesis
      using assms(2)
      by (auto simp: handleUpdateFlow_def updateStep1_def selectionKept_def
          selectionInStore_def setter_defs Let_def assms(4)
          dest!: validIndex_in_store split: option.splits)
  next
    case 3
    with kept show ?thesis
      by (simp add: handleUpdateFlow_def updateStep2_def selectionKept_def
          selectionInStore_def setter_defs Let_def)
  next
    case 4
    with kept have "selectionInStore a"
      by simp
    with 4 show ?thesis
      by (auto simp: handleUpdateFlow_def updateStep3_def selectionKept_def
          selectionInStore_def resetConversation_eq setter_defs Let_def
          updateDelta_early_selection split: option.splits sum.splits)
  next
    case 5
    with kept have "selectionInStore a"
      by simp
    with 5 show ?thesis
      by (auto simp: handleUpdateFlow_def updateStep4_def selectionKept_def
          selectionInStore_def resetConversation_eq setter_defs Let_def
          split: option.splits)
  next
    case 6
    then show ?thesis
      by (simp add: handleUpdateFlow_def updateStep5_def selectionKept_def
          showIdleOptions_eq resetConversation_eq setter_defs)
  next
    case 7
    with kept have "selectionInStore a"
      by simp
    with 7 show ?thesis
      by (simp add: handleUpdateFlow_def selectionKept_def)
  qed
qed

lemma delete_keeps_selection:
  assumes "2 \<le> flowStep r \<longrightarrow> selectionInStore r" and "tasks a = tasks r"
    and "selectedTaskId a = selectedTaskId r" and "flowStep a = flowStep r"
  shows "selectionKept (handleDeleteFlow r u a)"
proof -
  have kept: "selectionInStore a" if "2 \<le> flowStep r"
    using that assms by (simp add: selectionInStore_def)
  consider "flowStep r = 0" | "flowStep r = 1" | "flowStep r = 2" | "2 < flowStep r"
    by linarith
  then show ?thesis
  proof cases
    case 1
    then show ?thesis
      by (simp add: handleDeleteFlow_def deleteStep0_def selectionKept_def
          resetConversation_eq setter_defs)
  next
    case 2
    then show ?thesis
      using assms(2)
      by (auto simp: handleDeleteFlow_def deleteStep1_def selectionKept_def
          selectionInStore_def setter_defs Let_def assms(4)
          dest!: validIndex_in_store split: option.splits)
  next
    case 3
    then show ?thesis
      by (simp add: handleDeleteFlow_def deleteStep2_def selectionKept_def
          showIdleOptions_eq resetConversation_eq setter_defs)
  next
    case 4
    with kept have "selectionInStore a"
      by simp
    with 4 show ?thesis
      by (simp add: handleDeleteFlow_def selectionKept_def)
  qed
qed

lemma add_leaves_selection: "action a = Add \<Longrightarrow> selectionKept (handleAddFlow uuid r u a)"
  by (auto simp: selectionKept_def handleAddFlow_def addStep0_def addStep1_def addStep2_def
      addStep3_def addStep4_def addStep5_def addStep6_def showIdleOptions_eq setter_defs
      Let_def split: option.splits)

lemma view_leaves_selection: "selectionKept (handleViewFlow r a)"
  by (simp add: selectionKept_def handleViewFlow_def showIdleOptions_eq resetConversation_eq
      setter_defs)

lemma handleSend_keeps_selection:
  assumes "selectionKept s" and "idleAtZero s"
  shows "selectionKept (handleSend uuid v s)"
proof (cases "messageText v s = []")
  case True
  with assms(1) show ?thesis
    by (simp add: handleSend_def)
next
  case False
  define a where "a = s\<lparr>messages := messages s @ [userSaid (messageText v s)], input := []\<rparr>"
  have same: "tasks a = tasks s" "selectedTaskId a = selectedTaskId s" "flowStep a = flowStep s"
    "action a = action s"
    by (simp_all add: a_def)
  have "selectionKept (routeInput uuid s (messageText v s) a)"
  proof (cases "action s")
    case Idle
    with assms(2) have zero: "flowStep s = 0"
      by (simp add: idleAtZero_def)
    have idle: "selectionKept (x\<lparr>action := Idle\<rparr>)" for x
      by (simp add: selectionKept_def)
    from Idle zero same show ?thesis
      by (simp add: routeInput_def add_leaves_selection update_keeps_selection
          delete_keeps_selection view_leaves_selection setter_defs)
        (simp add: selectionKept_def)
  next
    case Add
    with same show ?thesis
      by (simp add: route_flow add_leaves_selection)
  next
    case Update
    with assms(1) have "2 \<le> flowStep s \<longrightarrow> selectionInStore s"
      by (simp add: selectionKept_def)
    then have "selectionKept (handleUpdateFlow s (messageText v s) a)"
      using same by (intro update_keeps_selection) simp_all
    with Update show ?thesis
      by (simp add: route_flow)
  next
    case Delete
    with assms(1) have "2 \<le> flowStep s \<longrightarrow> selectionInStore s"
      by (simp add: selectionKept_def)
    then have "selectionKept (handleDeleteFlow s (messageText v s) a)"
      using same by (intro delete_keeps_selection) simp_all
    with Delete show ?thesis
      by (simp add: route_flow)
  next
    case View
    then show ?thesis
      by (simp add: routeInput_def view_leaves_selection)
  qed
  with False show ?thesis
    by (simp add: handleSend_eq a_def)
qed

text \<open>
  In the states the page can reach, the Update and Delete flows never lose their
  selection: from the step after the selection on it is the id of a task of the store.
  It can still be missing in the sense of the code, namely when that id is the empty
  string.
\<close>

lemma reachable_selectionKept: "reachable s \<Longrightarrow> selectionKept s"
proof (induction rule: reachable.induct)
  case (start ts)
  show ?case
    by (simp add: selectionKept_def initialState_def)
next
  case (typing s x)
  then show ?case
    by (simp add: selectionKept_def selectionInStore_def setInput_def)
next
  case (enter s uuid)
  then show ?case
    by (intro handleSend_keeps_selection reachable_idleAtZero)
next
  case (tap s b uuid)
  then show ?case
    unfolding tapButton_def by (intro handleSend_keeps_selection reachable_idleAtZero)
qed

section \<open>Serializing and parsing\<close>

subsection \<open>Characters\<close>

lemma char_eq_code: "c = d \<longleftrightarrow> (of_char c :: nat) = of_char d"
  by (simp add: of_char_eq_iff)

lemma dquote_code [simp]: "(of_char dquote :: nat) = 34"
  by (simp add: dquote_def)

lemma backslash_code [simp]: "(of_char backslash :: nat) = 92"
  by (simp add: backslash_def)

lemma hexValue_hexDigit: "d < 16 \<Longrightarrow> hexValue (hexDigit d) = Some d"
  by (auto simp: hexValue_def hexDigit_def Let_def)

lemma hex4_low:
  "n < 256 \<Longrightarrow> hex4 CHR ''0'' CHR ''0'' (hexDigit (n div 16)) (hexDigit (n mod 16)) = Some n"
proof -
  assume "n < 256"
  then have "n div 16 < 16" and "n mod 16 < 16"
    by auto
  then have "hexValue (hexDigit (n div 16)) = Some (n div 16)"
    and "hexValue (hexDigit (n mod 16)) = Some (n mod 16)"
    by (simp_all add: hexValue_hexDigit)
  moreover have "hexValue CHR ''0'' = Some 0"
    by (simp add: hexValue_def)
  ultimately show ?thesis
    by (simp add: hex4_def)
qed

lemma unescape_simps:
  "unescape dquote = Some 34" "unescape backslash = Some 92" "unescape CHR ''b'' = Some 8"
  "unescape CHR ''f'' = Some 12" "unescape CHR ''n'' = Some 10" "unescape CHR ''r'' = Some 13"
  "unescape CHR ''t'' = Some 9"
  by (simp_all add: unescape_def char_eq_code)

subsection \<open>Strings\<close>

lemma parse_quoteChar:
  "parseStringBody (quoteChar c @ cs) = consUnit (of_char c) (parseStringBody cs)"
proof -
  define n where "n = (of_char c :: nat)"
  consider "n = 8" | "n = 9" | "n = 10" | "n = 12" | "n = 13" | "n = 34" | "n = 92"
    | "n < 32" "n \<notin> {8, 9, 10, 12, 13}" | "32 \<le> n" "n \<noteq> 34" "n \<noteq> 92"
    by fastforce
  then show ?thesis
  proof cases
    case 8
    then have "n < 256"
      by simp
    with 8 show ?thesis
      by (simp add: quoteChar_def n_def [symmetric] Let_def char_eq_code hex4_low)
  next
    case 9
    then show ?thesis
      by (simp add: quoteChar_def n_def [symmetric] Let_def char_eq_code)
  qed (simp_all add: quoteChar_def n_def [symmetric] Let_def char_eq_code unescape_simps)
qed

lemma parse_quoted_body:
  "parseStringBody (concat (map quoteChar s) @ dquote # rest) = Some (units s, rest)"
proof (induction s)
  case Nil
  show ?case
    by (simp add: units_def)
next
  case (Cons c s)
  have "parseStringBody (concat (map quoteChar (c # s)) @ dquote # rest)
          = parseStringBody (quoteChar c @ (concat (map quoteChar s) @ dquote # rest))"
    by simp
  also have "\<dots> = consUnit (of_char c)
                      (parseStringBody (concat (map quoteChar s) @ dquote # rest))"
    by (rule parse_quoteChar)
  also have "\<dots> = Some (units (c # s), rest)"
    by (simp add: Cons.IH consUnit_def units_def)
  finally show ?case .
qed

lemma fromUnits_units: "fromUnits (units s) = Some s"
  by (simp add: fromUnits_def units_def comp_def map_idI)

subsection \<open>Values and members\<close>

lemma skipWs_Cons: "\<not> isJsonWhiteSpace c \<Longrightarrow> skipWs (c # cs) = c # cs"
  by (simp add: skipWs_def)

lemma not_ws:
  "\<not> isJsonWhiteSpace dquote" "\<not> isJsonWhiteSpace CHR ''n''" "\<not> isJsonWhiteSpace CHR ''{''"
  "\<not> isJsonWhiteSpace CHR ''}''" "\<not> isJsonWhiteSpace CHR '':''" "\<not> isJsonWhiteSpace CHR '',''"
  "\<not> isJsonWhiteSpace CHR '']''" "\<not> isJsonWhiteSpace CHR ''[''"
  by (simp_all add: isJsonWhiteSpace_def)

lemma parse_string_value:
  "parseValue (Suc n) (quoteJSONString s @ rest) = Ok (JString (units s), rest)"
  by (simp add: parseValue.simps quoteJSONString_def skipWs_Cons not_ws parse_quoted_body
      andThen_def orSyntaxError_def)

lemma parse_null_value: "parseValue (Suc n) (''null'' @ rest) = Ok (JNull, rest)"
  by (simp add: parseValue.simps skipWs_Cons not_ws char_eq_code)

lemma parse_option_value:
  "parseValue (Suc n) (optionText x @ rest) = Ok (optionJson x, rest)"
  by (cases x)
    (simp_all only: optionText_def optionJson_def option.case parse_string_value
      parse_null_value)

lemma parse_member_more:
  assumes "parseValue n (vt @ CHR '','' # after) = Ok (v, CHR '','' # after)"
  shows "parseMembers (Suc n) (property k vt @ CHR '','' # after)
           = andThen (parseMembers n after) (\<lambda>(ms, r). Ok ((units k, v) # ms, r))"
  using assms
  by (simp add: parseMembers.simps property_def quoteJSONString_def skipWs_Cons not_ws
      parse_quoted_body andThen_def orSyntaxError_def)

lemma parse_member_last:
  assumes "parseValue n (vt @ CHR ''}'' # rest) = Ok (v, CHR ''}'' # rest)"
  shows "parseMembers (Suc n) (property k vt @ CHR ''}'' # rest) = Ok ([(units k, v)], rest)"
  using assms
  by (simp add: parseMembers.simps property_def quoteJSONString_def skipWs_Cons not_ws
      parse_quoted_body andThen_def orSyntaxError_def char_eq_code)

lemma stringifyTask_eq:
  "stringifyTask t @ rest =
     CHR ''{'' # property ''id'' (quoteJSONString (task_id t)) @ CHR '','' #
       property ''title'' (quoteJSONString (title t)) @ CHR '','' #
       property ''due'' (quoteJSONString (due t)) @ CHR '','' #
       property ''priority'' (quoteJSONString (priority t)) @ CHR '','' #
       property ''reminder'' (optionText (reminder t)) @ CHR ''}'' # rest"
  by (simp add: stringifyTask_def optionText_def)

lemma parse_task:
  "parseValue (Suc (Suc (Suc (Suc (Suc (Suc (Suc n))))))) (stringifyTask t @ rest)
     = Ok (taskJson t, rest)"
proof -
  have open_brace: "skipWs (property k vt @ after) = property k vt @ after" for k vt after
    by (simp add: property_def quoteJSONString_def skipWs_Cons not_ws)
  have first: "hd (property k vt @ after) = dquote" for k vt after
    by (simp add: property_def quoteJSONString_def)
  have members:
    "parseMembers (Suc (Suc (Suc (Suc (Suc (Suc n))))))
       (property ''id'' (quoteJSONString (task_id t)) @ CHR '','' #
        property ''title'' (quoteJSONString (title t)) @ CHR '','' #
        property ''due'' (quoteJSONString (due t)) @ CHR '','' #
        property ''priority'' (quoteJSONString (priority t)) @ CHR '','' #
        property ''reminder'' (optionText (reminder t)) @ CHR ''}'' # rest)
     = Ok ([(units ''id'', JString (units (task_id t))),
            (units ''title'', JString (units (title t))),
            (units ''due'', JString (units (due t))),
            (units ''priority'', JString (units (priority t))),
            (units ''reminder'', optionJson (reminder t))], rest)"
    by (simp only: parse_member_more parse_member_last parse_string_value parse_option_value
        andThen_def outcome.case prod.case)
  have "parseValue (Suc (Suc (Suc (Suc (Suc (Suc (Suc n))))))) (stringifyTask t @ rest)
          = andThen (parseMembers (Suc (Suc (Suc (Suc (Suc (Suc n))))))
               (property ''id'' (quoteJSONString (task_id t)) @ CHR '','' #
                property ''title'' (quoteJSONString (title t)) @ CHR '','' #
                property ''due'' (quoteJSONString (due t)) @ CHR '','' #
                property ''priority'' (quoteJSONString (priority t)) @ CHR '','' #
                property ''reminder'' (optionText (reminder t)) @ CHR ''}'' # rest))
              (\<lambda>(ms, r'). Ok (JObject ms, r'))"
    unfolding stringifyTask_eq
    by (subst parseValue.simps)
      (simp add: skipWs_Cons not_ws char_eq_code property_def quoteJSONString_def)
  then show ?thesis
    by (simp only: members andThen_def outcome.case prod.case taskJson_def)
qed

subsection \<open>Arrays of tasks\<close>

lemma parse_task_fuel:
  assumes "7 \<le> n"
  shows "parseValue n (stringifyTask t @ rest) = Ok (taskJson t, rest)"
proof -
  from assms obtain k where "n = 7 + k"
    using le_Suc_ex by blast
  then have "n = Suc (Suc (Suc (Suc (Suc (Suc (Suc k))))))"
    by simp
  then show ?thesis
    by (simp only: parse_task)
qed

lemma parse_tasks:
  "ts \<noteq> [] \<Longrightarrow> length ts + 7 \<le> n \<Longrightarrow>
   parseElements n (join '','' (map stringifyTask ts) @ CHR '']'' # rest)
     = Ok (map taskJson ts, rest)"
proof (induction ts arbitrary: n)
  case Nil
  then show ?case
    by simp
next
  case (Cons t ts)
  from Cons.prems(2) obtain m where n: "n = Suc m" and m: "7 \<le> m" "length ts + 7 \<le> m"
    by (cases n) auto
  show ?case
  proof (cases ts)
    case Nil
    have "parseValue m (stringifyTask t @ CHR '']'' # rest) = Ok (taskJson t, CHR '']'' # rest)"
      using m(1) by (rule parse_task_fuel)
    with Nil show ?thesis
      by (simp add: n parseElements.simps andThen_def skipWs_Cons not_ws char_eq_code)
  next
    case (Cons t' ts')
    define after where "after = join '','' (map stringifyTask ts) @ CHR '']'' # rest"
    have shape: "join '','' (map stringifyTask (t # ts)) @ CHR '']'' # rest
                  = stringifyTask t @ CHR '','' # after"
      by (simp add: Cons after_def)
    have "parseValue m (stringifyTask t @ CHR '','' # after) = Ok (taskJson t, CHR '','' # after)"
      using m(1) by (rule parse_task_fuel)
    moreover have "parseElements m after = Ok (map taskJson ts, rest)"
      unfolding after_def using Cons m(2) by (intro Cons.IH) simp_all
    ultimately have "parseElements n (stringifyTask t @ CHR '','' # after)
                       = Ok (map taskJson (t # ts), rest)"
      by (simp add: n parseElements.simps andThen_def skipWs_Cons not_ws)
    then show ?thesis
      by (simp only: shape)
  qed
qed

lemma length_stringifyTask: "8 \<le> length (stringifyTask t)"
  by (simp add: stringifyTask_def property_def quoteJSONString_def)

lemma length_join_tasks: "8 * length ts \<le> length (join sep (map stringifyTask ts))"
proof (induction ts)
  case Nil
  show ?case
    by simp
next
  case (Cons t ts)
  then show ?case
    using length_stringifyTask [of t] by (cases ts) simp_all
qed

lemma stringify_starts_with_brace:
  "ts \<noteq> [] \<Longrightarrow> \<exists>body. join '','' (map stringifyTask ts) @ after = CHR ''{'' # body"
proof (cases ts)
  case Nil
  assume "ts \<noteq> []"
  with Nil show ?thesis
    by simp
next
  case (Cons t ts')
  then show ?thesis
    by (cases ts') (simp_all add: stringifyTask_def)
qed

lemma parse_stringify: "JSON_parse (JSON_stringify ts) = Some (JArray (map taskJson ts))"
proof (cases "ts = []")
  case True
  have "JSON_parse ''[]'' = Some (JArray [])"
    by code_simp
  with True show ?thesis
    by (simp add: JSON_stringify_def)
next
  case False
  define body where "body = join '','' (map stringifyTask ts) @ '']''"
  define fuel where "fuel = 2 * length (CHR ''['' # body)"
  from False obtain inner where inner: "body = CHR ''{'' # inner"
    using stringify_starts_with_brace [of ts "'']''"] by (auto simp: body_def)
  have "8 * length ts \<le> length body"
    using length_join_tasks [of ts "'',''"] by (simp add: body_def)
  then have "length ts + 7 \<le> fuel"
    using False by (cases ts) (simp_all add: fuel_def)
  with False have "parseElements fuel body = Ok (map taskJson ts, [])"
    unfolding body_def by (simp add: parse_tasks)
  then have "parseValue (Suc fuel) (CHR ''['' # body) = Ok (JArray (map taskJson ts), [])"
    by (simp add: parseValue.simps(2) [of fuel] skipWs_Cons not_ws char_eq_code inner
        andThen_def)
  then show ?thesis
    by (simp add: JSON_parse_def JSON_stringify_def body_def fuel_def skipWs_def)
qed

subsection \<open>The typed view\<close>

lemma jsonToTask_taskJson: "jsonToTask (taskJson t) = Some t"
  by (cases "reminder t") (simp_all add: jsonToTask_def taskJson_def optionJson_def fromUnits_units)

lemma jsonToTasks_taskJson: "jsonToTasks (map taskJson ts) = Some ts"
  by (induction ts) (simp_all add: jsonToTask_taskJson)

lemma stringify_not_Nil: "JSON_stringify ts \<noteq> []"
  by (simp add: JSON_stringify_def)

subsection \<open>The fuel of the parser\<close>

lemma andThen_Ok: "andThen x f = Ok y \<longleftrightarrow> (\<exists>v. x = Ok v \<and> f v = Ok y)"
  by (cases x) (simp_all add: andThen_def)

lemma andThen_OutOfFuel:
  "andThen x f = OutOfFuel \<longleftrightarrow> x = OutOfFuel \<or> (\<exists>v. x = Ok v \<and> f v = OutOfFuel)"
  by (cases x) (simp_all add: andThen_def)

lemma orSyntaxError_simps [simp]:
  "orSyntaxError x = Ok v \<longleftrightarrow> x = Some v" "orSyntaxError x \<noteq> OutOfFuel"
  by (cases x; simp add: orSyntaxError_def)+

lemma length_skipWs: "length (skipWs cs) \<le> length cs"
  by (simp add: skipWs_def length_dropWhile_le)

lemma skipWs_Cons_length: "skipWs cs = c # r \<Longrightarrow> length r < length cs"
  using length_skipWs [of cs] by simp

lemma parseStringBody_consumes: "parseStringBody cs = Some (s, r) \<Longrightarrow> length r < length cs"
proof (induction cs arbitrary: s r rule: parseStringBody.induct)
  case 1
  then show ?case
    by simp
next
  case (2 c cs)
  show ?case
    using "2.prems" "2.IH"
    by (fastforce simp: consUnit_def split: if_splits list.splits option.splits)
qed

lemma digitRun_consumes: "digitRun cs = Some (ds, r) \<Longrightarrow> length r < length cs"
proof -
  assume "digitRun cs = Some (ds, r)"
  then have ne: "takeWhile isDigit cs \<noteq> []" and r: "r = dropWhile isDigit cs"
    by (auto simp: digitRun_def split: if_splits)
  have "length (takeWhile isDigit cs) + length (dropWhile isDigit cs) = length cs"
    by (metis length_append takeWhile_dropWhile_id)
  with ne r show ?thesis
    by (cases "takeWhile isDigit cs") auto
qed

lemma parseNumber_consumes: "parseNumber cs = Some (lit, r) \<Longrightarrow> length r < length cs"
proof -
  assume parsed: "parseNumber cs = Some (lit, r)"
  have int: "parseInteger xs = Some (a, ys) \<Longrightarrow> length ys < length xs" for xs a ys
    by (auto simp: parseInteger_def dest: digitRun_consumes split: list.splits if_splits)
  have frac: "parseFraction xs = Some (a, ys) \<Longrightarrow> length ys \<le> length xs" for xs a ys
    by (auto simp: parseFraction_def dest!: digitRun_consumes
        split: list.splits if_splits option.splits)
  have expo: "parseExponent xs = Some (a, ys) \<Longrightarrow> length ys \<le> length xs" for xs a ys
    by (auto simp: parseExponent_def dest!: digitRun_consumes
        split: list.splits if_splits option.splits)
  define r0 where
    "r0 = (case cs of [] \<Rightarrow> cs | c # rest \<Rightarrow> if c = CHR ''-'' then rest else cs)"
  have len: "length r0 \<le> length cs"
    by (auto simp: r0_def split: list.splits)
  from parsed have "\<exists>ip r1 fp r2 ep. parseInteger r0 = Some (ip, r1)
      \<and> parseFraction r1 = Some (fp, r2) \<and> parseExponent r2 = Some (ep, r)"
    by (auto simp: parseNumber_def r0_def Let_def split: list.splits if_splits option.splits)
  then obtain ip r1 fp r2 ep where
    "parseInteger r0 = Some (ip, r1)" "parseFraction r1 = Some (fp, r2)"
    "parseExponent r2 = Some (ep, r)"
    by blast
  then show ?thesis
    using len int [of r0 ip r1] frac [of r1 fp r2] expo [of r2 ep r] by linarith
qed

lemma literal_consumes:
  assumes "startsWith xs lit" and "lit \<noteq> []"
  shows "length (drop (length lit) xs) < length xs"
proof -
  from assms(1) obtain q where "xs = lit @ q"
    by (auto simp: startsWith_iff)
  with assms(2) show ?thesis
    by simp
qed

lemma parse_consumes:
  "(\<forall>cs v r. parseValue n cs = Ok (v, r) \<longrightarrow> length r < length cs)
   \<and> (\<forall>cs vs r. parseElements n cs = Ok (vs, r) \<longrightarrow> length r < length cs)
   \<and> (\<forall>cs ms r. parseMembers n cs = Ok (ms, r) \<longrightarrow> length r < length cs)"
proof (induction n)
  case 0
  show ?case
    by (simp add: parseValue.simps parseElements.simps parseMembers.simps)
next
  case (Suc n)
  have "length r < length cs" if "parseValue (Suc n) cs = Ok (v, r)" for cs v r
  proof (cases "skipWs cs")
    case Nil
    with that show ?thesis
      by (simp add: parseValue.simps)
  next
    case (Cons c rest)
    then have rest: "length rest < length cs" and whole: "length (c # rest) \<le> length cs"
      using length_skipWs [of cs] by simp_all
    have lits: "length (drop 4 (c # rest)) < length (c # rest)"
      if "startsWith (c # rest) ''true'' \<or> startsWith (c # rest) ''null''"
      using that literal_consumes [of "c # rest" "''true''"]
        literal_consumes [of "c # rest" "''null''"]
      by auto
    have lit5: "length (drop 5 (c # rest)) < length (c # rest)"
      if "startsWith (c # rest) ''false''"
      using that literal_consumes [of "c # rest" "''false''"] by auto
    from that Cons consider
        (str) s where "parseStringBody rest = Some (s, r)"
      | (close) d where "skipWs rest = d # r"
      | (elements) vs where "parseElements n rest = Ok (vs, r)"
      | (members) ms where "parseMembers n rest = Ok (ms, r)"
      | (lit4) "startsWith (c # rest) ''true'' \<or> startsWith (c # rest) ''null''"
          "r = drop 4 (c # rest)"
      | (lit5) "startsWith (c # rest) ''false''" "r = drop 5 (c # rest)"
      | (num) lit where "parseNumber (c # rest) = Some (lit, r)"
      by (auto simp: parseValue.simps andThen_Ok split: if_splits list.splits)
    then show ?thesis
    proof cases
      case str
      with rest show ?thesis
        using parseStringBody_consumes [of rest s r] by simp
    next
      case close
      with rest show ?thesis
        using skipWs_Cons_length [of rest d r] by simp
    next
      case elements
      with rest Suc.IH show ?thesis
        by fastforce
    next
      case members
      with rest Suc.IH show ?thesis
        by fastforce
    next
      case lit4
      with whole lits show ?thesis
        by simp
    next
      case lit5
      with whole lit5 show ?thesis
        by simp
    next
      case num
      with whole show ?thesis
        using parseNumber_consumes [of "c # rest" lit r] by simp
    qed
  qed
  moreover have "length r < length cs" if "parseElements (Suc n) cs = Ok (vs, r)" for cs vs r
  proof -
    from that obtain v r0 where v: "parseValue n cs = Ok (v, r0)"
      and cont: "(case skipWs r0 of
                    [] \<Rightarrow> SyntaxError
                  | c # r' \<Rightarrow>
                      if c = CHR '','' then
                        andThen (parseElements n r') (\<lambda>(vs, r''). Ok (v # vs, r''))
                      else if c = CHR '']'' then Ok ([v], r')
                      else SyntaxError) = Ok (vs, r)"
      by (auto simp: parseElements.simps andThen_Ok)
    from v Suc.IH have r0: "length r0 < length cs"
      by blast
    from cont obtain c r1 where ws: "skipWs r0 = c # r1"
      by (cases "skipWs r0") auto
    then have r1: "length r1 < length r0"
      by (rule skipWs_Cons_length)
    from cont ws consider "r = r1" | vs' where "parseElements n r1 = Ok (vs', r)"
      by (auto simp: andThen_Ok split: if_splits)
    then show ?thesis
    proof cases
      case 1
      with r0 r1 show ?thesis
        by simp
    next
      case 2
      with Suc.IH have "length r < length r1"
        by blast
      with r0 r1 show ?thesis
        by simp
    qed
  qed
  moreover have "length r < length cs" if "parseMembers (Suc n) cs = Ok (ms, r)" for cs ms r
  proof -
    from that obtain q rest0 where ws0: "skipWs cs = q # rest0"
      by (cases "skipWs cs") (auto simp: parseMembers.simps)
    then have rest0: "length rest0 < length cs"
      by (rule skipWs_Cons_length)
    from that ws0 obtain k r1 where key: "parseStringBody rest0 = Some (k, r1)"
      and cont1: "(case skipWs r1 of
                [] \<Rightarrow> SyntaxError
              | colon # r2 \<Rightarrow>
                  if colon \<noteq> CHR '':'' then SyntaxError
                  else
                    andThen (parseValue n r2) (\<lambda>(v, r3).
                      case skipWs r3 of
                        [] \<Rightarrow> SyntaxError
                      | c # r4 \<Rightarrow>
                          if c = CHR '','' then
                            andThen (parseMembers n r4) (\<lambda>(ms, r5). Ok ((k, v) # ms, r5))
                          else if c = CHR ''}'' then Ok ([(k, v)], r4)
                          else SyntaxError)) = Ok (ms, r)"
      by (auto simp: parseMembers.simps andThen_Ok split: if_splits)
    from key have r1: "length r1 < length rest0"
      by (rule parseStringBody_consumes)
    from cont1 obtain colon r2 where ws1: "skipWs r1 = colon # r2"
      by (cases "skipWs r1") auto
    then have r2: "length r2 < length r1"
      by (rule skipWs_Cons_length)
    from cont1 ws1 obtain v r3 where v: "parseValue n r2 = Ok (v, r3)"
      and cont2: "(case skipWs r3 of
                        [] \<Rightarrow> SyntaxError
                      | c # r4 \<Rightarrow>
                          if c = CHR '','' then
                            andThen (parseMembers n r4) (\<lambda>(ms, r5). Ok ((k, v) # ms, r5))
                          else if c = CHR ''}'' then Ok ([(k, v)], r4)
                          else SyntaxError) = Ok (ms, r)"
      by (auto simp: andThen_Ok split: if_splits)
    from v Suc.IH have r3: "length r3 < length r2"
      by blast
    from cont2 obtain c r4 where ws3: "skipWs r3 = c # r4"
      by (cases "skipWs r3") auto
    then have r4: "length r4 < length r3"
      by (rule skipWs_Cons_length)
    from cont2 ws3 consider "r = r4" | ms' where "parseMembers n r4 = Ok (ms', r)"
      by (auto simp: andThen_Ok split: if_splits)
    then show ?thesis
    proof cases
      case 1
      with rest0 r1 r2 r3 r4 show ?thesis
        by simp
    next
      case 2
      with Suc.IH have "length r < length r4"
        by blast
      with rest0 r1 r2 r3 r4 show ?thesis
        by simp
    qed
  qed
  ultimately show ?case
    by blast
qed

lemma parse_fuel:
  "(\<forall>cs. 2 * length cs < n \<longrightarrow> parseValue n cs \<noteq> OutOfFuel)
   \<and> (\<forall>cs. 2 * length cs + 1 < n \<longrightarrow> parseElements n cs \<noteq> OutOfFuel)
   \<and> (\<forall>cs. 2 * length cs + 1 < n \<longrightarrow> parseMembers n cs \<noteq> OutOfFuel)"
proof (induction n)
  case 0
  show ?case
    by simp
next
  case (Suc n)
  have "parseValue (Suc n) cs \<noteq> OutOfFuel" if fuel: "2 * length cs < Suc n" for cs
  proof
    assume out: "parseValue (Suc n) cs = OutOfFuel"
    then obtain c rest where ws: "skipWs cs = c # rest"
      by (cases "skipWs cs") (auto simp: parseValue.simps)
    then have "length rest < length cs"
      by (rule skipWs_Cons_length)
    with fuel have enough: "2 * length rest + 1 < n"
      by simp
    from out ws have "parseElements n rest = OutOfFuel \<or> parseMembers n rest = OutOfFuel"
      by (auto simp: parseValue.simps andThen_OutOfFuel split: if_splits list.splits)
    with enough Suc.IH show False
      by blast
  qed
  moreover have "parseElements (Suc n) cs \<noteq> OutOfFuel" if fuel: "2 * length cs + 1 < Suc n"
    for cs
  proof
    assume out: "parseElements (Suc n) cs = OutOfFuel"
    from fuel Suc.IH have "parseValue n cs \<noteq> OutOfFuel"
      by simp
    with out obtain v r0 where v: "parseValue n cs = Ok (v, r0)"
      and cont: "(case skipWs r0 of
                    [] \<Rightarrow> SyntaxError
                  | c # r' \<Rightarrow>
                      if c = CHR '','' then
                        andThen (parseElements n r') (\<lambda>(vs, r''). Ok (v # vs, r''))
                      else if c = CHR '']'' then Ok ([v], r')
                      else SyntaxError) = OutOfFuel"
      by (auto simp: parseElements.simps andThen_OutOfFuel)
    from v have r0: "length r0 < length cs"
      using parse_consumes [of n] by blast
    from cont obtain c r1 where ws: "skipWs r0 = c # r1"
      by (cases "skipWs r0") auto
    then have r1: "length r1 < length r0"
      by (rule skipWs_Cons_length)
    from cont ws have "parseElements n r1 = OutOfFuel"
      by (auto simp: andThen_OutOfFuel split: if_splits)
    moreover from fuel r0 r1 have "2 * length r1 + 1 < n"
      by simp
    ultimately show False
      using Suc.IH by blast
  qed
  moreover have "parseMembers (Suc n) cs \<noteq> OutOfFuel" if fuel: "2 * length cs + 1 < Suc n"
    for cs
  proof
    assume out: "parseMembers (Suc n) cs = OutOfFuel"
    then obtain q rest0 where ws0: "skipWs cs = q # rest0"
      by (cases "skipWs cs") (auto simp: parseMembers.simps)
    then have rest0: "length rest0 < length cs"
      by (rule skipWs_Cons_length)
    from out ws0 obtain k r1 where key: "parseStringBody rest0 = Some (k, r1)"
      and cont1: "(case skipWs r1 of
                [] \<Rightarrow> SyntaxError
              | colon # r2 \<Rightarrow>
                  if colon \<noteq> CHR '':'' then SyntaxError
                  else
                    andThen (parseValue n r2) (\<lambda>(v, r3).
                      case skipWs r3 of
                        [] \<Rightarrow> SyntaxError
                      | c # r4 \<Rightarrow>
                          if c = CHR '','' then
                            andThen (parseMembers n r4) (\<lambda>(ms, r5). Ok ((k, v) # ms, r5))
                          else if c = CHR ''}'' then Ok ([(k, v)], r4)
                          else SyntaxError)) = OutOfFuel"
      by (auto simp: parseMembers.simps andThen_OutOfFuel split: if_splits)
    from key have r1: "length r1 < length rest0"
      by (rule parseStringBody_consumes)
    from cont1 obtain colon r2 where ws1: "skipWs r1 = colon # r2"
      by (cases "skipWs r1") auto
    then have r2: "length r2 < length r1"
      by (rule skipWs_Cons_length)
    from fuel rest0 r1 r2 Suc.IH have "parseValue n r2 \<noteq> OutOfFuel"
      by simp
    with cont1 ws1 obtain v r3 where v: "parseValue n r2 = Ok (v, r3)"
      and cont2: "(case skipWs r3 of
                        [] \<Rightarrow> SyntaxError
                      | c # r4 \<Rightarrow>
                          if c = CHR '','' then
                            andThen (parseMembers n r4) (\<lambda>(ms, r5). Ok ((k, v) # ms, r5))
                          else if c = CHR ''}'' then Ok ([(k, v)], r4)
                          else SyntaxError) = OutOfFuel"
      by (auto simp: andThen_OutOfFuel split: if_splits)
    from v have r3: "length r3 < length r2"
      using parse_consumes [of n] by blast
    from cont2 obtain c r4 where ws3: "skipWs r3 = c # r4"
      by (cases "skipWs r3") auto
    then have r4: "length r4 < length r3"
      by (rule skipWs_Cons_length)
    from cont2 ws3 have "parseMembers n r4 = OutOfFuel"
      by (auto simp: andThen_OutOfFuel split: if_splits)
    moreover from fuel rest0 r1 r2 r3 r4 have "2 * length r4 + 1 < n"
      by simp
    ultimately show False
      using Suc.IH by blast
  qed
  ultimately show ?case
    by blast
qed

text \<open>
  \<open>JSON_parse\<close> never runs out of fuel: when it answers \<open>None\<close>, the text is not JSON.
\<close>

lemma JSON_parse_fuel: "parseValue (2 * length doc + 1) doc \<noteq> OutOfFuel"
  using parse_fuel [of "2 * length doc + 1"] by simp

lemma JSON_parse_None_iff:
  "JSON_parse doc = None \<longleftrightarrow>
     parseValue (2 * length doc + 1) doc = SyntaxError
     \<or> (\<exists>v r. parseValue (2 * length doc + 1) doc = Ok (v, r) \<and> skipWs r \<noteq> [])"
  using JSON_parse_fuel [of doc]
  by (cases "parseValue (2 * length doc + 1) doc") (auto simp: JSON_parse_def)
text \<open>
  More fuel never changes an answer: once a parse has not run out of fuel, its result
  is the same for every larger amount.
\<close>

lemma andThen_stable:
  assumes "andThen x f \<noteq> OutOfFuel" and "x \<noteq> OutOfFuel \<Longrightarrow> x' = x"
    and "\<And>v. x = Ok v \<Longrightarrow> f v \<noteq> OutOfFuel \<Longrightarrow> f' v = f v"
  shows "andThen x' f' = andThen x f"
  using assms by (cases x) (auto simp: andThen_def)

lemma parse_stable:
  "(\<forall>cs. parseValue n cs \<noteq> OutOfFuel \<longrightarrow> parseValue (Suc n) cs = parseValue n cs)
   \<and> (\<forall>cs. parseElements n cs \<noteq> OutOfFuel \<longrightarrow> parseElements (Suc n) cs = parseElements n cs)
   \<and> (\<forall>cs. parseMembers n cs \<noteq> OutOfFuel \<longrightarrow> parseMembers (Suc n) cs = parseMembers n cs)"
proof (induction n)
  case 0
  show ?case
    by (simp add: parseValue.simps parseElements.simps parseMembers.simps)
next
  case (Suc n)
  have v: "parseValue (Suc n) cs = parseValue n cs" if "parseValue n cs \<noteq> OutOfFuel" for cs
    using that Suc.IH by blast
  have e: "parseElements (Suc n) cs = parseElements n cs" if "parseElements n cs \<noteq> OutOfFuel"
    for cs
    using that Suc.IH by blast
  have m: "parseMembers (Suc n) cs = parseMembers n cs" if "parseMembers n cs \<noteq> OutOfFuel"
    for cs
    using that Suc.IH by blast
  have "parseValue (Suc (Suc n)) cs = parseValue (Suc n) cs"
    if ok: "parseValue (Suc n) cs \<noteq> OutOfFuel" for cs
  proof (cases "skipWs cs")
    case Nil
    then show ?thesis
      by (simp add: parseValue.simps)
  next
    case (Cons c rest)
    consider (arr) d r where "c \<noteq> dquote" "c = CHR ''[''" "skipWs rest = d # r" "d \<noteq> CHR '']''"
      | (obj) d r where "c \<noteq> dquote" "c \<noteq> CHR ''[''" "c = CHR ''{''" "skipWs rest = d # r"
          "d \<noteq> CHR ''}''"
      | (flat) "c = dquote \<or> (c = CHR ''['' \<and> (skipWs rest = [] \<or> hd (skipWs rest) = CHR '']''))
          \<or> (c \<noteq> CHR ''['' \<and> c = CHR ''{''
               \<and> (skipWs rest = [] \<or> hd (skipWs rest) = CHR ''}''))
          \<or> (c \<noteq> CHR ''['' \<and> c \<noteq> CHR ''{'')"
      by (cases "skipWs rest") auto
    then show ?thesis
    proof cases
      case arr
      with ok Cons have "andThen (parseElements n rest) (\<lambda>(vs, r'). Ok (JArray vs, r'))
          \<noteq> OutOfFuel"
        by (simp add: parseValue.simps)
      then have "andThen (parseElements (Suc n) rest) (\<lambda>(vs, r'). Ok (JArray vs, r'))
          = andThen (parseElements n rest) (\<lambda>(vs, r'). Ok (JArray vs, r'))"
        by (rule andThen_stable) (simp_all add: e)
      with arr Cons show ?thesis
        by (simp add: parseValue.simps)
    next
      case obj
      with ok Cons have "andThen (parseMembers n rest) (\<lambda>(ms, r'). Ok (JObject ms, r'))
          \<noteq> OutOfFuel"
        by (simp add: parseValue.simps)
      then have "andThen (parseMembers (Suc n) rest) (\<lambda>(ms, r'). Ok (JObject ms, r'))
          = andThen (parseMembers n rest) (\<lambda>(ms, r'). Ok (JObject ms, r'))"
        by (rule andThen_stable) (simp_all add: m)
      with obj Cons show ?thesis
        by (simp add: parseValue.simps)
    next
      case flat
      with Cons show ?thesis
        by (cases "skipWs rest") (auto simp: parseValue.simps)
    qed
  qed
  moreover have "parseElements (Suc (Suc n)) cs = parseElements (Suc n) cs"
    if ok: "parseElements (Suc n) cs \<noteq> OutOfFuel" for cs
  proof -
    let ?k = "\<lambda>n. \<lambda>(v, r). case skipWs r of
         [] \<Rightarrow> SyntaxError
       | c # r' \<Rightarrow>
           if c = CHR '','' then andThen (parseElements n r') (\<lambda>(vs, r''). Ok (v # vs, r''))
           else if c = CHR '']'' then Ok ([v], r')
           else SyntaxError"
    have cont: "?k (Suc n) x = ?k n x" if "?k n x \<noteq> OutOfFuel" for x
    proof (cases x)
      case (Pair v r)
      show ?thesis
      proof (cases "skipWs r")
        case Nil
        with Pair show ?thesis
          by simp
      next
        case (Cons c r')
        show ?thesis
        proof (cases "c = CHR '',''")
          case True
          with that Pair Cons
          have "andThen (parseElements n r') (\<lambda>(vs, r''). Ok (v # vs, r'')) \<noteq> OutOfFuel"
            by simp
          then have "andThen (parseElements (Suc n) r') (\<lambda>(vs, r''). Ok (v # vs, r''))
              = andThen (parseElements n r') (\<lambda>(vs, r''). Ok (v # vs, r''))"
            by (rule andThen_stable) (simp_all add: e)
          with True Pair Cons show ?thesis
            by simp
        next
          case False
          with Pair Cons show ?thesis
            by simp
        qed
      qed
    qed
    from ok have "andThen (parseValue n cs) (?k n) \<noteq> OutOfFuel"
      by (simp add: parseElements.simps)
    then have "andThen (parseValue (Suc n) cs) (?k (Suc n)) = andThen (parseValue n cs) (?k n)"
      by (rule andThen_stable) (simp_all add: v cont)
    then show ?thesis
      by (simp add: parseElements.simps)
  qed
  moreover have "parseMembers (Suc (Suc n)) cs = parseMembers (Suc n) cs"
    if ok: "parseMembers (Suc n) cs \<noteq> OutOfFuel" for cs
  proof (cases "skipWs cs")
    case Nil
    then show ?thesis
      by (simp add: parseMembers.simps)
  next
    case (Cons q r0)
    let ?k3 = "\<lambda>n k. \<lambda>(v, r3). case skipWs r3 of
          [] \<Rightarrow> SyntaxError
        | c # r4 \<Rightarrow>
            if c = CHR '','' then
              andThen (parseMembers n r4) (\<lambda>(ms, r5). Ok ((k, v) # ms, r5))
            else if c = CHR ''}'' then Ok ([(k, v)], r4)
            else SyntaxError"
    let ?k1 = "\<lambda>n. \<lambda>(k, r1). case skipWs r1 of
          [] \<Rightarrow> SyntaxError
        | colon # r2 \<Rightarrow>
            if colon \<noteq> CHR '':'' then SyntaxError
            else andThen (parseValue n r2) (?k3 n k)"
    have cont3: "?k3 (Suc n) k x = ?k3 n k x" if "?k3 n k x \<noteq> OutOfFuel" for k x
    proof (cases x)
      case (Pair v r3)
      show ?thesis
      proof (cases "skipWs r3")
        case Nil
        with Pair show ?thesis
          by simp
      next
        case (Cons c r4)
        show ?thesis
        proof (cases "c = CHR '',''")
          case True
          with that Pair Cons
          have "andThen (parseMembers n r4) (\<lambda>(ms, r5). Ok ((k, v) # ms, r5)) \<noteq> OutOfFuel"
            by simp
          then have "andThen (parseMembers (Suc n) r4) (\<lambda>(ms, r5). Ok ((k, v) # ms, r5))
              = andThen (parseMembers n r4) (\<lambda>(ms, r5). Ok ((k, v) # ms, r5))"
            by (rule andThen_stable) (simp_all add: m)
          with True Pair Cons show ?thesis
            by simp
        next
          case False
          with Pair Cons show ?thesis
            by simp
        qed
      qed
    qed
    have cont1: "?k1 (Suc n) x = ?k1 n x" if "?k1 n x \<noteq> OutOfFuel" for x
    proof (cases x)
      case (Pair k r1)
      show ?thesis
      proof (cases "skipWs r1")
        case Nil
        with Pair show ?thesis
          by simp
      next
        case (Cons colon r2)
        show ?thesis
        proof (cases "colon = CHR '':''")
          case True
          with that Pair Cons have "andThen (parseValue n r2) (?k3 n k) \<noteq> OutOfFuel"
            by simp
          then have "andThen (parseValue (Suc n) r2) (?k3 (Suc n) k)
              = andThen (parseValue n r2) (?k3 n k)"
            by (rule andThen_stable) (simp_all add: v cont3)
          with True Pair Cons show ?thesis
            by simp
        next
          case False
          with Pair Cons show ?thesis
            by simp
        qed
      qed
    qed
    show ?thesis
    proof (cases "q = dquote")
      case True
      with ok Cons have "andThen (orSyntaxError (parseStringBody r0)) (?k1 n) \<noteq> OutOfFuel"
        by (simp add: parseMembers.simps)
      then have "andThen (orSyntaxError (parseStringBody r0)) (?k1 (Suc n))
          = andThen (orSyntaxError (parseStringBody r0)) (?k1 n)"
        by (rule andThen_stable) (simp_all add: cont1)
      with True Cons show ?thesis
        by (simp add: parseMembers.simps)
    next
      case False
      with Cons show ?thesis
        by (simp add: parseMembers.simps)
    qed
  qed
  ultimately show ?case
    by blast
qed

lemma parseValue_more_fuel:
  assumes "parseValue n cs \<noteq> OutOfFuel"
  shows "parseValue (n + k) cs = parseValue n cs"
proof (induction k)
  case 0
  show ?case
    by simp
next
  case (Suc k)
  with assms have "parseValue (n + k) cs \<noteq> OutOfFuel"
    by simp
  then have "parseValue (Suc (n + k)) cs = parseValue (n + k) cs"
    using parse_stable [of "n + k"] by blast
  with Suc show ?case
    by simp
qed

lemma JSON_parse_any_fuel:
  assumes "2 * length doc < m"
  shows "parseValue m doc = parseValue (2 * length doc + 1) doc"
proof -
  from assms obtain k where "m = (2 * length doc + 1) + k"
    using less_iff_Suc_add by auto
  then show ?thesis
    using parseValue_more_fuel [OF JSON_parse_fuel, of doc k] by simp
qed

section \<open>Index selection in the Update and Delete flows\<close>

lemma index_step:
  assumes "action s = Update \<or> action s = Delete" and "flowStep s = 1"
    and "messageText v s \<noteq> []"
  shows "case validIndex (messageText v s) (tasks s) of
           None \<Rightarrow> rePrompted (messageText v s) (indexPrompt (action s)) s (handleSend uuid v s)
         | Some i \<Rightarrow> selectedAt i s (handleSend uuid v s)"
  using assms
  by (auto simp: handleSend_eq route_flow handleUpdateFlow_def handleDeleteFlow_def
      updateStep1_def deleteStep1_def
      rePrompted_def selectedAt_def indexPrompt_def assistantSaid_def
      setter_defs Let_def split: option.splits)

text \<open>
  Claim C1, as amended. At the index-selection step (step 1) of the Update and Delete
  flows the submitted text (not blank, or the entry point ignores it) is trimmed and
  matched against an optional \<open>#\<close> followed by a run of digits, and whatever follows the
  digits is ignored. When the digits denote a
  number \<open>k\<close> with \<open>1 \<le> k \<le> N\<close> (\<open>N\<close> the number of tasks), the flow selects the task at
  position \<open>k - 1\<close> and moves to step 2; in particular it does so for the texts \<open>k\<close> and
  \<open>#k\<close> themselves (first conjunct). In every other case (no digit at the start, or a
  number outside \<open>[1, N]\<close>) the flow re-prompts, and selection, step counter, intent,
  draft, buttons and store stay as they were (second conjunct). Lemma \<open>matchIndex_iff\<close>
  says what the pattern accepts.
\<close>

theorem index_selection:
  assumes "action s = Update \<or> action s = Delete" and "flowStep s = 1"
    and "messageText v s \<noteq> []"
  shows "(1 \<le> k \<and> k \<le> length (tasks s)
            \<and> (trim (messageText v s) = showNat k \<or> trim (messageText v s) = ''#'' @ showNat k)
          \<longrightarrow> selectedAt (k - 1) s (handleSend uuid v s))
       \<and> (case matchIndex (trim (messageText v s)) of
            None \<Rightarrow>
              rePrompted (messageText v s) (indexPrompt (action s)) s (handleSend uuid v s)
          | Some ds \<Rightarrow>
              if 1 \<le> parseDecimal ds \<and> parseDecimal ds \<le> length (tasks s)
              then selectedAt (parseDecimal ds - 1) s (handleSend uuid v s)
              else rePrompted (messageText v s) (indexPrompt (action s)) s
                     (handleSend uuid v s))"
proof -
  have step: "case validIndex (messageText v s) (tasks s) of
           None \<Rightarrow> rePrompted (messageText v s) (indexPrompt (action s)) s (handleSend uuid v s)
         | Some i \<Rightarrow> selectedAt i s (handleSend uuid v s)"
    using assms by (rule index_step)
  have second: "case matchIndex (trim (messageText v s)) of
            None \<Rightarrow>
              rePrompted (messageText v s) (indexPrompt (action s)) s (handleSend uuid v s)
          | Some ds \<Rightarrow>
              if 1 \<le> parseDecimal ds \<and> parseDecimal ds \<le> length (tasks s)
              then selectedAt (parseDecimal ds - 1) s (handleSend uuid v s)
              else rePrompted (messageText v s) (indexPrompt (action s)) s
                     (handleSend uuid v s)"
    using step by (auto simp: validIndex_eq split: option.splits if_splits)
  have first: "selectedAt (k - 1) s (handleSend uuid v s)"
    if "1 \<le> k" "k \<le> length (tasks s)"
      "trim (messageText v s) = showNat k \<or> trim (messageText v s) = ''#'' @ showNat k"
  proof -
    from that(3) have "matchIndex (trim (messageText v s)) = Some (showNat k)"
      using matchIndex_showNat [of k] by auto
    with second that(1,2) show ?thesis
      by (simp add: parseDecimal_showNat)
  qed
  from first second show ?thesis
    by blast
qed

theorem index_selection_witness:
  "selectedAt 1 (inFlow Update 1 exampleStore)
     (handleSend ''u'' (Some ''#2'') (inFlow Update 1 exampleStore))
   \<and> rePrompted ''3'' ''Please choose a valid task number.''
        (inFlow Delete 1 exampleStore)
        (handleSend ''u'' (Some ''3'') (inFlow Delete 1 exampleStore))"
  using index_selection [of "inFlow Update 1 exampleStore" "Some ''#2''" 2 "''u''"]
    index_selection [of "inFlow Delete 1 exampleStore" "Some ''3''" 3 "''u''"]
  by (simp add: inFlow_def exampleStore_def messageText_def trim_def isWhiteSpace_def
      matchIndex_def isDigit_def parseDecimal_def digitValue_def indexPrompt_def
      showNat.simps)

text \<open>
  The claim as stated fails: \<open>1abc\<close> is neither \<open>k\<close> nor \<open>#k\<close>, yet at step 1 of the
  Update flow over a store of one task it selects that task and moves to step 2.
\<close>

theorem index_selection_counterexample:
  "flowStep (handleSend ''u'' (Some ''1abc'') (inFlow Update 1 oneTask)) = 2
   \<and> selectedTaskId (handleSend ''u'' (Some ''1abc'') (inFlow Update 1 oneTask)) = Some ''id-a''
   \<and> flowStep (inFlow Update 1 oneTask) = 1
   \<and> selectedTaskId (inFlow Update 1 oneTask) = None"
  by (simp add: handleSend_eq messageText_def route_flow handleUpdateFlow_def updateStep1_def
      validIndex_def parseIndex_def matchIndex_def trim_def isWhiteSpace_def isDigit_def
      parseDecimal_def digitValue_def inFlow_def initialState_def oneTask_def
      exampleTask_def setter_defs Let_def)

section \<open>A lost selection\<close>


lemma map_no_match: "\<forall>x\<in>set xs. \<not> P x \<Longrightarrow> map (\<lambda>x. if P x then f x else x) xs = xs"
  by (induction xs) auto









section \<open>Declining at a final confirmation\<close>

lemma saysYes_no: "saysYes ''no'' = False"
  by (simp add: saysYes_def trim_def toLowerCase_def lowerChar_def isWhiteSpace_def)

text \<open>
  Claim C4. In every session state at a final confirmation step (step 6 of Add, step
  5 of Update, step 2 of Delete), over every task store, submitting \<open>no\<close> (typed, or as
  the value of the button) leaves the store exactly as it was and returns the engine to
  Idle: step counter 0, default draft, no selection, no field, the four top-level
  buttons.
\<close>

theorem no_at_confirmation:
  assumes said: "messageText v s = ''no''"
    and final: "(action s = Add \<and> flowStep s = 6) \<or> (action s = Update \<and> flowStep s = 5)
                \<or> (action s = Delete \<and> flowStep s = 2)"
  shows "tasks (handleSend uuid v s) = tasks s
         \<and> action (handleSend uuid v s) = Idle
         \<and> flowStep (handleSend uuid v s) = 0
         \<and> pendingTask (handleSend uuid v s) = defaultDraft
         \<and> selectedTaskId (handleSend uuid v s) = None
         \<and> pendingField (handleSend uuid v s) = None
         \<and> buttons (handleSend uuid v s) = idleActions"
proof -
  have ne: "messageText v s \<noteq> []"
    by (simp add: said)
  consider (add) "action s = Add" "flowStep s = 6"
    | (update) "action s = Update" "flowStep s = 5"
    | (delete) "action s = Delete" "flowStep s = 2"
    using final by blast
  then show ?thesis
  proof cases
    case add
    then show ?thesis
      by (simp add: handleSend_eq [OF ne] route_flow handleAddFlow_def addStep6_def said
          saysYes_no showIdleOptions_eq setter_defs)
  next
    case update
    then show ?thesis
      by (simp add: handleSend_eq [OF ne] route_flow handleUpdateFlow_def updateStep5_def
          said saysYes_no showIdleOptions_eq resetConversation_eq setter_defs)
  next
    case delete
    then show ?thesis
      by (simp add: handleSend_eq [OF ne] route_flow handleDeleteFlow_def deleteStep2_def
          said saysYes_no showIdleOptions_eq resetConversation_eq setter_defs)
  qed
qed

theorem no_at_confirmation_witness:
  "tasks (handleSend ''u'' (Some ''no'') (inFlow Add 6 exampleStore)) = exampleStore
   \<and> action (handleSend ''u'' (Some ''no'') (inFlow Add 6 exampleStore)) = Idle
   \<and> tasks (submitText ''u'' ''no'' (inFlow Update 5 exampleStore)) = exampleStore
   \<and> action (submitText ''u'' ''no'' (inFlow Update 5 exampleStore)) = Idle
   \<and> tasks (handleSend ''u'' (Some ''no'') (inFlow Delete 2 exampleStore)) = exampleStore
   \<and> action (handleSend ''u'' (Some ''no'') (inFlow Delete 2 exampleStore)) = Idle"
  using no_at_confirmation [of "Some ''no''" "inFlow Add 6 exampleStore" "''u''"]
    no_at_confirmation [of None "setInput ''no'' (inFlow Update 5 exampleStore)" "''u''"]
    no_at_confirmation [of "Some ''no''" "inFlow Delete 2 exampleStore" "''u''"]
  by (simp add: submitText_def messageText_def inFlow_def setInput_def trim_def
      isWhiteSpace_def)

section \<open>The intent router\<close>

lemma route_add:
  assumes "action r = Idle" and "flowStep r = 0" and "mentions u ''add''"
  shows "routeInput uuid r u a =
           (started Add [assistantSaid ''Great! What is the task?''] a)
             \<lparr>pendingTask := defaultDraft\<rparr>"
  using assms
  by (simp add: routeInput_def handleAddFlow_def addStep0_def started_def assistantSaid_def
      setter_defs)

lemma route_update:
  assumes "action r = Idle" and "flowStep r = 0"
    and "\<not> mentions u ''add''" and "mentions u ''update''"
  shows "routeInput uuid r u a =
           (if tasks r = [] then
              idleAgain [assistantSaid ''You have no tasks yet. Let's add one.''] a
            else
              started Update
                [assistantSaid (''Which task do you want to update?'' @ nl
                                  @ numberedList (tasks r))] a)"
  using assms
  by (simp add: routeInput_def handleUpdateFlow_def updateStep0_def started_def idleAgain_def
      assistantSaid_def resetConversation_eq setter_defs)

lemma route_delete:
  assumes "action r = Idle" and "flowStep r = 0"
    and "\<not> mentions u ''add''" and "\<not> mentions u ''update''"
    and "mentions u ''delete'' \<or> mentions u ''remove''"
  shows "routeInput uuid r u a =
           (if tasks r = [] then
              idleAgain
                [assistantSaid ''No tasks to delete right now. Want to add one instead?''] a
            else
              started Delete
                [assistantSaid (''Got it. Which task should I delete?'' @ nl
                                  @ numberedList (tasks r))] a)"
  using assms
  by (auto simp: routeInput_def handleDeleteFlow_def deleteStep0_def started_def idleAgain_def
      assistantSaid_def resetConversation_eq setter_defs)

lemma route_view:
  assumes "action r = Idle"
    and "\<not> mentions u ''add''" and "\<not> mentions u ''update''"
    and "\<not> (mentions u ''delete'' \<or> mentions u ''remove'')"
    and "mentions u ''view'' \<or> mentions u ''show'' \<or> mentions u ''list''"
  shows "routeInput uuid r u a =
           (if tasks r = [] then
              idleAgain
                [assistantSaid ''You do not have any tasks yet. Ready to add one?''] a
            else
              idleAgain
                [assistantSaid (''Here is what is on your list:'' @ nl @ bulletList (tasks r)),
                 assistantSaid
                   ''Anything else I can help with? Add, update, delete, or view tasks.''] a)"
  using assms
  by (auto simp: routeInput_def handleViewFlow_def idleAgain_def assistantSaid_def
      showIdleOptions_eq resetConversation_eq setter_defs)

lemma route_none:
  assumes "action r = Idle"
    and "\<not> mentions u ''add''" and "\<not> mentions u ''update''"
    and "\<not> (mentions u ''delete'' \<or> mentions u ''remove'')"
    and "\<not> (mentions u ''view'' \<or> mentions u ''show'' \<or> mentions u ''list'')"
  shows "routeInput uuid r u a =
           a\<lparr>messages := messages a
                  @ [assistantSaid
                       ''I can add, update, delete, or show tasks. Which one do you need?''],
             buttons := idleActions\<rparr>"
  using assms
  by (simp add: routeInput_def assistantSaid_def setter_defs)

text \<open>
  Claim C5. While no intent is active the router looks for the keywords in the
  trimmed, lower-cased text (\<open>mentions\<close>, a case-insensitive substring test by lemma
  \<open>mentions_iff\<close>), in the order add; update; delete or remove; view, show or list; the
  first group that matches wins. On a match it sets the intent, resets the step counter,
  clears the buttons and runs the first step of that flow in the same turn. The theorem
  gives the state the turn leaves behind (\<open>a\<close> is the state the router was handed, with the
  user's message already logged):
  \<^item> add: intent Add, waiting at step 1 with a fresh draft and no buttons;
  \<^item> update, delete: intent set, waiting at step 1 with the numbered list, no buttons; on
    an empty store the first step ends the flow at once, back in Idle;
  \<^item> view, show, list: the first step is the whole flow, so the turn ends in Idle;
  \<^item> no match: one clarifying message, the four top-level buttons, everything else
    (intent and store included) as it was.
\<close>

theorem idle_routing:
  assumes "reachable r" and "action r = Idle"
  shows "routeInput uuid r u a =
     (if mentions u ''add'' then
        (started Add [assistantSaid ''Great! What is the task?''] a)
          \<lparr>pendingTask := defaultDraft\<rparr>
      else if mentions u ''update'' then
        (if tasks r = [] then
           idleAgain [assistantSaid ''You have no tasks yet. Let's add one.''] a
         else
           started Update
             [assistantSaid (''Which task do you want to update?'' @ nl
                               @ numberedList (tasks r))] a)
      else if mentions u ''delete'' \<or> mentions u ''remove'' then
        (if tasks r = [] then
           idleAgain
             [assistantSaid ''No tasks to delete right now. Want to add one instead?''] a
         else
           started Delete
             [assistantSaid (''Got it. Which task should I delete?'' @ nl
                               @ numberedList (tasks r))] a)
      else if mentions u ''view'' \<or> mentions u ''show'' \<or> mentions u ''list'' then
        (if tasks r = [] then
           idleAgain [assistantSaid ''You do not have any tasks yet. Ready to add one?''] a
         else
           idleAgain
             [assistantSaid (''Here is what is on your list:'' @ nl @ bulletList (tasks r)),
              assistantSaid
                ''Anything else I can help with? Add, update, delete, or view tasks.''] a)
      else
        a\<lparr>messages := messages a
               @ [assistantSaid
                    ''I can add, update, delete, or show tasks. Which one do you need?''],
          buttons := idleActions\<rparr>)"
proof -
  have zero: "flowStep r = 0"
    using assms by (rule idle_step0)
  show ?thesis
    using route_add [OF assms(2) zero, of u uuid a]
      route_update [OF assms(2) zero, of u uuid a]
      route_delete [OF assms(2) zero, of u uuid a]
      route_view [OF assms(2), of u uuid a]
      route_none [OF assms(2), of u uuid a]
    by presburger
qed
theorem idle_routing_witness:
  "routeInput ''u'' (initialState\<lparr>tasks := exampleStore\<rparr>) ''Please UPDATE my address''
     (initialState\<lparr>tasks := exampleStore\<rparr>)
     = (started Add [assistantSaid ''Great! What is the task?'']
          (initialState\<lparr>tasks := exampleStore\<rparr>))\<lparr>pendingTask := defaultDraft\<rparr>
   \<and> routeInput ''u'' (initialState\<lparr>tasks := exampleStore\<rparr>) ''Remove one''
       (initialState\<lparr>tasks := exampleStore\<rparr>)
     = started Delete
         [assistantSaid (''Got it. Which task should I delete?'' @ nl
                           @ numberedList exampleStore)]
         (initialState\<lparr>tasks := exampleStore\<rparr>)
   \<and> routeInput ''u'' (initialState\<lparr>tasks := exampleStore\<rparr>) ''hello''
       (initialState\<lparr>tasks := exampleStore\<rparr>)
     = (initialState\<lparr>tasks := exampleStore\<rparr>)
         \<lparr>messages := initialMessages
            @ [assistantSaid
                 ''I can add, update, delete, or show tasks. Which one do you need?''],
          buttons := idleActions\<rparr>"
proof -
  have add: "mentions ''Please UPDATE my address'' ''add''"
    by code_simp
  have remove: "\<not> mentions ''Remove one'' ''add''" "\<not> mentions ''Remove one'' ''update''"
    "mentions ''Remove one'' ''remove''"
    by code_simp+
  have hello: "\<not> mentions ''hello'' ''add''" "\<not> mentions ''hello'' ''update''"
    "\<not> mentions ''hello'' ''delete''" "\<not> mentions ''hello'' ''remove''"
    "\<not> mentions ''hello'' ''view''" "\<not> mentions ''hello'' ''show''"
    "\<not> mentions ''hello'' ''list''"
    by code_simp+
  show ?thesis
    using idle_routing [OF reachable.start [of exampleStore], of "''u''"
        "''Please UPDATE my address''" "initialState\<lparr>tasks := exampleStore\<rparr>"]
      idle_routing [OF reachable.start [of exampleStore], of "''u''"
        "''Remove one''" "initialState\<lparr>tasks := exampleStore\<rparr>"]
      idle_routing [OF reachable.start [of exampleStore], of "''u''"
        "''hello''" "initialState\<lparr>tasks := exampleStore\<rparr>"]
      add remove hello
    by (simp add: initialState_def exampleStore_def)
qed

section \<open>Scenarios\<close>

lemma submitText_eq:
  "trim txt \<noteq> [] \<Longrightarrow>
   submitText uuid txt s =
     routeInput uuid (setInput txt s) (trim txt)
       (s\<lparr>messages := messages s @ [userSaid (trim txt)], input := []\<rparr>)"
  by (simp add: submitText_def handleSend_eq messageText_def setInput_def)

text \<open>
  Claim C2 (scenario A). From Idle, over any task store, typing \<open>add a task\<close>,
  \<open>Buy milk\<close>, \<open>tomorrow 9am\<close>, \<open>High\<close>, \<open>no\<close>, \<open>yes\<close> extends the store by exactly one task
  at its end, with title \<open>Buy milk\<close>, due \<open>tomorrow 9am\<close>, priority \<open>High\<close> and no
  reminder (its id is the identifier handed out in the last turn), and the engine is back
  in Idle at step 0 with the four top-level buttons.
\<close>

theorem scenario_add:
  assumes "reachable s" and "action s = Idle"
  shows "tasks (turns [(u1, ''add a task''), (u2, ''Buy milk''), (u3, ''tomorrow 9am''),
                       (u4, ''High''), (u5, ''no''), (u6, ''yes'')] s)
           = tasks s @ [\<lparr>task_id = u6, title = ''Buy milk'', due = ''tomorrow 9am'',
                         priority = ''High'', reminder = None\<rparr>]
       \<and> action (turns [(u1, ''add a task''), (u2, ''Buy milk''), (u3, ''tomorrow 9am''),
                         (u4, ''High''), (u5, ''no''), (u6, ''yes'')] s) = Idle
       \<and> flowStep (turns [(u1, ''add a task''), (u2, ''Buy milk''), (u3, ''tomorrow 9am''),
                           (u4, ''High''), (u5, ''no''), (u6, ''yes'')] s) = 0
       \<and> buttons (turns [(u1, ''add a task''), (u2, ''Buy milk''), (u3, ''tomorrow 9am''),
                          (u4, ''High''), (u5, ''no''), (u6, ''yes'')] s) = idleActions"
proof -
  have zero: "flowStep s = 0"
    using assms by (rule idle_step0)
  have t: "trim ''add a task'' = ''add a task''" "trim ''Buy milk'' = ''Buy milk''"
    "trim ''tomorrow 9am'' = ''tomorrow 9am''" "trim ''High'' = ''High''"
    "trim ''no'' = ''no''" "trim ''yes'' = ''yes''"
    by code_simp+
  have w: "mentions ''add a task'' ''add''" "findPriority ''High'' = Some ''High''"
    "\<not> saysYes ''no''" "saysNo ''no''" "saysYes ''yes''"
    by code_simp+
  define s1 where "s1 = submitText u1 ''add a task'' s"
  define s2 where "s2 = submitText u2 ''Buy milk'' s1"
  define s3 where "s3 = submitText u3 ''tomorrow 9am'' s2"
  define s4 where "s4 = submitText u4 ''High'' s3"
  define s5 where "s5 = submitText u5 ''no'' s4"
  define s6 where "s6 = submitText u6 ''yes'' s5"
  have 1: "action s1 = Add \<and> flowStep s1 = 1 \<and> tasks s1 = tasks s
           \<and> pendingTask s1 = defaultDraft"
    using assms(2) zero
    by (simp add: s1_def submitText_eq t route_add w started_def setInput_def)
  have 2: "action s2 = Add \<and> flowStep s2 = 2 \<and> tasks s2 = tasks s
           \<and> pendingTask s2 = defaultDraft\<lparr>p_title := Some ''Buy milk''\<rparr>"
    using 1
    by (simp add: s2_def submitText_eq t route_flow handleAddFlow_def addStep1_def
        setter_defs)
  have 3: "action s3 = Add \<and> flowStep s3 = 3 \<and> tasks s3 = tasks s
           \<and> pendingTask s3
               = defaultDraft\<lparr>p_title := Some ''Buy milk'', p_due := Some ''tomorrow 9am''\<rparr>"
    using 2
    by (simp add: s3_def submitText_eq t route_flow handleAddFlow_def addStep2_def
        setter_defs)
  have 4: "action s4 = Add \<and> flowStep s4 = 4 \<and> tasks s4 = tasks s
           \<and> pendingTask s4
               = defaultDraft\<lparr>p_title := Some ''Buy milk'', p_due := Some ''tomorrow 9am'',
                               p_priority := Some ''High''\<rparr>"
    using 3
    by (simp add: s4_def submitText_eq t route_flow handleAddFlow_def addStep3_def w
        setter_defs)
  have 5: "action s5 = Add \<and> flowStep s5 = 6 \<and> tasks s5 = tasks s
           \<and> pendingTask s5
               = defaultDraft\<lparr>p_title := Some ''Buy milk'', p_due := Some ''tomorrow 9am'',
                               p_priority := Some ''High'', p_reminder := Some None\<rparr>"
    using 4
    by (simp add: s5_def submitText_eq t route_flow handleAddFlow_def addStep4_def w
        setter_defs)
  have 6: "tasks s6 = tasks s @ [\<lparr>task_id = u6, title = ''Buy milk'', due = ''tomorrow 9am'',
                                  priority = ''High'', reminder = None\<rparr>]
           \<and> action s6 = Idle \<and> flowStep s6 = 0 \<and> buttons s6 = idleActions"
    using 5
    by (simp add: s6_def submitText_eq t route_flow handleAddFlow_def addStep6_def w
        materialize_def defaultDraft_def showIdleOptions_eq setter_defs Let_def)
  have "turns [(u1, ''add a task''), (u2, ''Buy milk''), (u3, ''tomorrow 9am''),
               (u4, ''High''), (u5, ''no''), (u6, ''yes'')] s = s6"
    by (simp add: s1_def s2_def s3_def s4_def s5_def s6_def)
  with 6 show ?thesis
    by simp
qed

theorem scenario_add_witness:
  "tasks (turns [(''u1'', ''add a task''), (''u2'', ''Buy milk''), (''u3'', ''tomorrow 9am''),
                 (''u4'', ''High''), (''u5'', ''no''), (''id-c'', ''yes'')]
            (initialState\<lparr>tasks := exampleStore\<rparr>))
     = exampleStore @ [\<lparr>task_id = ''id-c'', title = ''Buy milk'', due = ''tomorrow 9am'',
                         priority = ''High'', reminder = None\<rparr>]
   \<and> action (turns [(''u1'', ''add a task''), (''u2'', ''Buy milk''), (''u3'', ''tomorrow 9am''),
                     (''u4'', ''High''), (''u5'', ''no''), (''id-c'', ''yes'')]
               (initialState\<lparr>tasks := exampleStore\<rparr>)) = Idle
   \<and> buttons (turns [(''u1'', ''add a task''), (''u2'', ''Buy milk''), (''u3'', ''tomorrow 9am''),
                      (''u4'', ''High''), (''u5'', ''no''), (''id-c'', ''yes'')]
                (initialState\<lparr>tasks := exampleStore\<rparr>)) = idleActions"
  using scenario_add [OF reachable.start [of exampleStore], of "''u1''" "''u2''" "''u3''"
      "''u4''" "''u5''" "''id-c''"]
  by (simp add: initialState_def)

text \<open>
  Claim C6 (scenario D), as amended. Over a store whose first task \<open>t\<close> has a non-empty
  id that no other task shares, typing \<open>update\<close>, \<open>#1\<close>, \<open>priority\<close>, \<open>Medium\<close>, \<open>yes\<close>
  from Idle leaves a store that differs in the priority of \<open>t\<close> only: it is now \<open>Medium\<close>,
  while the id, title, due and reminder of \<open>t\<close>, and every other task, are as before.
  The old priority of \<open>t\<close> does not matter. (The flow finds the task again by its id,
  and takes an empty id for no selection at all.)
\<close>

theorem scenario_update_priority:
  assumes "reachable s" and "action s = Idle" and "tasks s = t # others"
    and "task_id t \<noteq> []" and "\<forall>x\<in>set others. task_id x \<noteq> task_id t"
  shows "tasks (turns [(u1, ''update''), (u2, ''#1''), (u3, ''priority''), (u4, ''Medium''),
                       (u5, ''yes'')] s)
           = t\<lparr>priority := ''Medium''\<rparr> # others
       \<and> action (turns [(u1, ''update''), (u2, ''#1''), (u3, ''priority''), (u4, ''Medium''),
                         (u5, ''yes'')] s) = Idle"
proof -
  have zero: "flowStep s = 0"
    using assms(1,2) by (rule idle_step0)
  have t: "trim ''update'' = ''update''" "trim ''#1'' = ''#1''"
    "trim ''priority'' = ''priority''" "trim ''Medium'' = ''Medium''" "trim ''yes'' = ''yes''"
    by code_simp+
  have w: "\<not> mentions ''update'' ''add''" "mentions ''update'' ''update''"
    "parseIndex ''#1'' = Some 0" "toLowerCase ''priority'' = ''priority''"
    "findPriority ''Medium'' = Some ''Medium''" "saysYes ''yes''"
    by code_simp+
  define s1 where "s1 = submitText u1 ''update'' s"
  define s2 where "s2 = submitText u2 ''#1'' s1"
  define s3 where "s3 = submitText u3 ''priority'' s2"
  define s4 where "s4 = submitText u4 ''Medium'' s3"
  define s5 where "s5 = submitText u5 ''yes'' s4"
  have 1: "action s1 = Update \<and> flowStep s1 = 1 \<and> tasks s1 = t # others"
    using assms(2,3) zero
    by (simp add: s1_def submitText_eq t route_update w started_def setInput_def)
  have 2: "action s2 = Update \<and> flowStep s2 = 2 \<and> tasks s2 = t # others
           \<and> selectedTaskId s2 = Some (task_id t)"
    using 1
    by (simp add: s2_def submitText_eq t route_flow handleUpdateFlow_def updateStep1_def
        validIndex_def w setter_defs Let_def)
  have 3: "action s3 = Update \<and> flowStep s3 = 3 \<and> tasks s3 = t # others
           \<and> selectedTaskId s3 = Some (task_id t) \<and> pendingField s3 = Some ''priority''"
    using 2
    by (simp add: s3_def submitText_eq t route_flow handleUpdateFlow_def updateStep2_def w
        setter_defs Let_def)
  have 4: "action s4 = Update \<and> flowStep s4 = 5 \<and> tasks s4 = t # others
           \<and> selectedTaskId s4 = Some (task_id t)
           \<and> pendingTask s4 = emptyDraft\<lparr>p_priority := Some ''Medium''\<rparr>"
    using 3 assms(4)
    by (simp add: s4_def submitText_eq t route_flow handleUpdateFlow_def updateStep3_def
        updateDelta_def falsy_def w setter_defs Let_def)
  have others: "map (\<lambda>x. if task_id x = task_id t then mergeTask x p else x) others = others"
    for p
    using assms(5) by (intro map_no_match) simp
  have merged: "mergeTask t (emptyDraft\<lparr>p_priority := Some ''Medium''\<rparr>)
                  = t\<lparr>priority := ''Medium''\<rparr>"
    by (simp add: mergeTask_def emptyDraft_def)
  have 5: "tasks s5 = t\<lparr>priority := ''Medium''\<rparr> # others \<and> action s5 = Idle"
    using 4 assms(4) others merged
    by (simp add: s5_def submitText_eq t route_flow handleUpdateFlow_def updateStep5_def
        falsy_def w showIdleOptions_eq setter_defs)
  have "turns [(u1, ''update''), (u2, ''#1''), (u3, ''priority''), (u4, ''Medium''),
               (u5, ''yes'')] s = s5"
    by (simp add: s1_def s2_def s3_def s4_def s5_def)
  with 5 show ?thesis
    by simp
qed

theorem scenario_update_priority_witness:
  "tasks (turns [(''u1'', ''update''), (''u2'', ''#1''), (''u3'', ''priority''),
                 (''u4'', ''Medium''), (''u5'', ''yes'')]
            (initialState\<lparr>tasks := exampleStore\<rparr>))
     = [\<lparr>task_id = ''id-a'', title = ''Walk'', due = ''Friday'', priority = ''Medium'',
         reminder = None\<rparr>,
        exampleTask ''id-b'' ''Read'' ''High'']
   \<and> action (turns [(''u1'', ''update''), (''u2'', ''#1''), (''u3'', ''priority''),
                     (''u4'', ''Medium''), (''u5'', ''yes'')]
               (initialState\<lparr>tasks := exampleStore\<rparr>)) = Idle"
  using scenario_update_priority [OF reachable.start [of exampleStore], of
      "exampleTask ''id-a'' ''Walk'' ''Low''" "[exampleTask ''id-b'' ''Read'' ''High'']"
      "''u1''" "''u2''" "''u3''" "''u4''" "''u5''"]
  by (simp add: initialState_def exampleStore_def exampleTask_def)

text \<open>
  The claim as stated fails over two stores that startup loads from a well-formed slot.
  Over a store whose only task has the empty id and priority \<open>Low\<close>, the five inputs leave
  the store as it was: the step after the choice of the field takes the empty id for a
  missing selection and abandons the flow. Over a store of two tasks with the same id,
  the save step changes the priority of both, so the other task does not stay as it was.
\<close>

theorem scenario_update_priority_counterexample:
  "startup (Some emptyIdSlot) = Some (initialState\<lparr>tasks := emptyIdStore\<rparr>)
   \<and> map priority emptyIdStore = [''Low'']
   \<and> map priority
       (tasks (turns [(''u1'', ''update''), (''u2'', ''#1''), (''u3'', ''priority''),
                      (''u4'', ''Medium''), (''u5'', ''yes'')]
                 (initialState\<lparr>tasks := emptyIdStore\<rparr>))) = [''Low'']
   \<and> startup (Some twinSlot) = Some (initialState\<lparr>tasks := twinStore\<rparr>)
   \<and> map priority twinStore = [''Low'', ''High'']
   \<and> map priority
       (tasks (turns [(''u1'', ''update''), (''u2'', ''#1''), (''u3'', ''priority''),
                      (''u4'', ''Medium''), (''u5'', ''yes'')]
                 (initialState\<lparr>tasks := twinStore\<rparr>))) = [''Medium'', ''Medium'']"
  by code_simp

section \<open>The task built at the save step of the Add flow\<close>





section \<open>The round trip through the persisted store\<close>

text \<open>
  Claim C9. For every task store, writing it to the slot (\<open>persist\<close>) and starting the
  page again on that slot reads back the same sequence of tasks: same length, same order,
  and the id, title, due, priority and reminder of every task as they were. The text that
  \<open>persist\<close> writes is always well-formed, so the premise of the claim holds for every
  store of the typed model.
\<close>

theorem persist_round_trip:
  "rehydrate (persist ts) = Loaded ts
   \<and> startup (persist ts) = Some (initialState\<lparr>tasks := ts\<rparr>)"
  by (simp add: rehydrate_def startup_def persist_def stringify_not_Nil parse_stringify
      jsonToTasks_taskJson)

theorem persist_round_trip_witness:
  "rehydrate (persist exampleStore) = Loaded exampleStore
   \<and> rehydrate (persist []) = Loaded []"
  using persist_round_trip [of exampleStore] persist_round_trip [of "[]"]
  by simp

section \<open>The entry point ignores blank text\<close>

text \<open>
  Claim C10. Submitting a text that is empty or consists of white space only is a
  complete no-op: the whole session state, the message log included, stays as it was.
  Such a text can only come from the text box: \<open>handleSend\<close> trims what the box holds
  and returns at once when nothing is left (first conjunct). A value handed to
  \<open>handleSend\<close> is not trimmed; the empty one is ignored as well (second conjunct), and
  the page hands over nothing but the values of the buttons on offer, none of which is
  blank (lemma \<open>tap_is_not_blank\<close>).
\<close>

theorem handleSend_blank_noop:
  assumes "\<forall>c\<in>set (input s). isWhiteSpace c"
  shows "handleSend uuid None s = s \<and> handleSend uuid' (Some []) s' = s'"
  using assms by (simp add: handleSend_def messageText_def trim_Nil_iff)

theorem handleSend_blank_noop_witness:
  "handleSend ''u'' None (setInput [CHR '' '', CHR 0x09, CHR 0xA0] initialState)
     = setInput [CHR '' '', CHR 0x09, CHR 0xA0] initialState
   \<and> handleSend ''u'' (Some []) initialState = initialState"
  using handleSend_blank_noop
    [of "setInput [CHR '' '', CHR 0x09, CHR 0xA0] initialState" "''u''" "''u''" initialState]
  by (simp add: setInput_def isWhiteSpace_def)

section \<open>The invariant is kept by every turn\<close>

lemma findPriority_valid: "findPriority u = Some pr \<Longrightarrow> pr \<in> set priorityOptions"
  by (auto simp: findPriority_def find_Some_iff)

lemma task_id_mergeTask: "p_id p = None \<Longrightarrow> task_id (mergeTask t p) = task_id t"
  by (simp add: mergeTask_def)

lemma priority_mergeTask:
  "draftOk p \<Longrightarrow> priority t \<in> set priorityOptions \<Longrightarrow>
   priority (mergeTask t p) \<in> set priorityOptions"
  by (auto simp: mergeTask_def draftOk_def split: option.splits)

lemma storeOk_append:
  assumes "storeOk ts" and "draftOk p" and "uuid \<notin> task_id ` set ts"
  shows "storeOk (ts @ [materialize uuid p])"
  using assms
  by (auto simp: storeOk_def draftOk_def materialize_def priorityOptions_def
      split: option.splits)

lemma storeOk_merge:
  assumes "storeOk ts" and "draftOk p"
  shows "storeOk (map (\<lambda>t. if Q t then mergeTask t p else t) ts)"
proof -
  have ids: "map task_id (map (\<lambda>t. if Q t then mergeTask t p else t) ts) = map task_id ts"
    using assms(2) by (simp add: draftOk_def task_id_mergeTask)
  have "\<forall>t\<in>set ts. priority (if Q t then mergeTask t p else t) \<in> set priorityOptions"
    using assms by (auto simp: storeOk_def priority_mergeTask)
  with ids assms(1) show ?thesis
    unfolding storeOk_def by (metis (no_types, lifting) imageE list.set_map)
qed

lemma storeOk_filter: "storeOk ts \<Longrightarrow> storeOk (filter Q ts)"
  by (auto simp: storeOk_def distinct_map_filter)

lemma draftOk_simps:
  "draftOk defaultDraft" "draftOk emptyDraft"
  "draftOk p \<Longrightarrow> draftOk (p\<lparr>p_title := x\<rparr>)" "draftOk p \<Longrightarrow> draftOk (p\<lparr>p_due := x\<rparr>)"
  "draftOk p \<Longrightarrow> draftOk (p\<lparr>p_reminder := y\<rparr>)"
  "draftOk p \<Longrightarrow> pr \<in> set priorityOptions \<Longrightarrow> draftOk (p\<lparr>p_priority := Some pr\<rparr>)"
  by (simp_all add: draftOk_def defaultDraft_def emptyDraft_def priorityOptions_def)

lemma wellFormed_reset:
  "storeOk (tasks a) \<Longrightarrow> wellFormed (resetConversation a)"
  "storeOk (tasks a) \<Longrightarrow> wellFormed (showIdleOptions a)"
  by (simp_all add: wellFormed_def resetConversation_eq showIdleOptions_eq draftOk_simps)

lemma add_keeps_wellFormed:
  assumes "wellFormed a" and "tasks a = tasks r" and "pendingTask a = pendingTask r"
    and "uuid \<notin> task_id ` set (tasks r)"
  shows "wellFormed (handleAddFlow uuid r u a)"
proof -
  from assms have store: "storeOk (tasks r)" and draft: "draftOk (pendingTask r)"
    by (simp_all add: wellFormed_def)
  have new: "storeOk (tasks r @ [materialize uuid (pendingTask r)])"
    using store draft assms(4) by (rule storeOk_append)
  show ?thesis
    using assms(1-3) new
    by (auto simp: handleAddFlow_def addStep0_def addStep1_def addStep2_def addStep3_def
        addStep4_def addStep5_def addStep6_def wellFormed_def showIdleOptions_eq setter_defs
        draftOk_simps findPriority_valid Let_def split: option.splits)
qed

lemma updateDelta_draftOk: "updateDelta r u = Inr d \<Longrightarrow> draftOk d"
  by (auto simp: updateDelta_def draftOk_simps findPriority_valid Let_def
      split: if_splits option.splits)

lemma updateDelta_early_keeps:
  "updateDelta r u = Inl early \<Longrightarrow>
   tasks (early a) = tasks a \<and> pendingTask (early a) = pendingTask a"
  by (auto simp: updateDelta_def setter_defs Let_def split: if_splits option.splits)

lemma update_keeps_wellFormed:
  assumes "wellFormed a" and "tasks a = tasks r" and "pendingTask a = pendingTask r"
  shows "wellFormed (handleUpdateFlow r u a)"
proof -
  from assms have store: "storeOk (tasks a)" and draft: "draftOk (pendingTask r)"
    by (simp_all add: wellFormed_def)
  have merged: "storeOk (map (\<lambda>t. if Some (task_id t) = selectedTaskId r
                                  then mergeTask t (pendingTask r) else t) (tasks a))"
    using store draft by (rule storeOk_merge)
  show ?thesis
    using assms(1) merged
    by (auto simp: handleUpdateFlow_def updateStep0_def updateStep1_def updateStep2_def
        updateStep3_def updateStep4_def updateStep5_def wellFormed_def showIdleOptions_eq
        resetConversation_eq setter_defs draftOk_simps updateDelta_draftOk
        updateDelta_early_keeps Let_def split: option.splits sum.splits)
qed

lemma delete_keeps_wellFormed:
  assumes "wellFormed a"
  shows "wellFormed (handleDeleteFlow r u a)"
  using assms
  by (auto simp: handleDeleteFlow_def deleteStep0_def deleteStep1_def deleteStep2_def
      wellFormed_def showIdleOptions_eq resetConversation_eq setter_defs draftOk_simps
      storeOk_filter Let_def split: option.splits)

lemma view_keeps_wellFormed: "wellFormed a \<Longrightarrow> wellFormed (handleViewFlow r a)"
  by (simp add: handleViewFlow_def wellFormed_def showIdleOptions_eq resetConversation_eq
      setter_defs draftOk_simps)

lemma route_keeps_wellFormed:
  assumes "wellFormed a" and "tasks a = tasks r" and "pendingTask a = pendingTask r"
    and "uuid \<notin> task_id ` set (tasks r)"
  shows "wellFormed (routeInput uuid r u a)"
proof -
  have pre: "wellFormed (a\<lparr>action := x, flowStep := 0, buttons := []\<rparr>)" for x
    using assms(1) by (simp add: wellFormed_def)
  have "wellFormed (a\<lparr>messages := ms, buttons := bs\<rparr>)" for ms bs
    using assms(1) by (simp add: wellFormed_def)
  with pre show ?thesis
    using assms
    by (simp add: routeInput_def add_keeps_wellFormed update_keeps_wellFormed
        delete_keeps_wellFormed view_keeps_wellFormed setter_defs)
qed

lemma handleSend_keeps_wellFormed:
  assumes "wellFormed s" and "uuid \<notin> task_id ` set (tasks s)"
  shows "wellFormed (handleSend uuid v s)"
proof (cases "messageText v s = []")
  case True
  with assms(1) show ?thesis
    by (simp add: handleSend_def)
next
  case False
  have "wellFormed (s\<lparr>messages := messages s @ [userSaid (messageText v s)], input := []\<rparr>)"
    using assms(1) by (simp add: wellFormed_def)
  then have "wellFormed (routeInput uuid s (messageText v s)
      (s\<lparr>messages := messages s @ [userSaid (messageText v s)], input := []\<rparr>))"
    using assms(2) by (intro route_keeps_wellFormed) simp_all
  with False show ?thesis
    by (simp add: handleSend_eq)
qed

lemma freshRun_wellFormed: "freshRun s0 s \<Longrightarrow> wellFormed s0 \<Longrightarrow> wellFormed s"
proof (induction rule: freshRun.induct)
  case (start s0)
  then show ?case .
next
  case (typing s0 s x)
  then show ?case
    by (simp add: wellFormed_def setInput_def)
next
  case (enter s0 s uuid)
  then show ?case
    by (intro handleSend_keeps_wellFormed) simp_all
next
  case (tap s0 s uuid b)
  then show ?case
    unfolding tapButton_def by (intro handleSend_keeps_wellFormed) simp_all
qed

lemma freshRun_turns: "freshRun s0 s \<Longrightarrow> freshTurns xs s \<Longrightarrow> freshRun s0 (turns xs s)"
proof (induction xs s rule: turns.induct)
  case (1 s)
  then show ?case
    by simp
next
  case (2 uuid x rest s)
  from 2(2) have "freshRun s0 (setInput x s)"
    by (rule freshRun.typing)
  moreover from 2(3) have "uuid \<notin> task_id ` set (tasks (setInput x s))"
    by (simp add: setInput_def)
  ultimately have "freshRun s0 (submitText uuid x s)"
    unfolding submitText_def by (rule freshRun.enter)
  with 2 show ?case
    by simp
qed

lemma startup_array:
  assumes "JSON_parse doc = Some (JArray (map taskJson ts))"
  shows "startup (Some doc) = Some (initialState\<lparr>tasks := ts\<rparr>)"
proof -
  have "JSON_parse [] = None"
    by code_simp
  with assms have "doc \<noteq> []"
    by auto
  with assms show ?thesis
    by (simp add: startup_def rehydrate_def jsonToTasks_taskJson)
qed

text \<open>
  Claim C7, as amended. The store satisfies the invariant when the ids of its tasks are
  pairwise distinct and every priority is \<open>High\<close>, \<open>Medium\<close> or \<open>Low\<close>.
  \<^item> In every state that the page reaches from a start state whose store \<open>ts\<close> satisfies
    the invariant, by typing, submitting and tapping the buttons on offer, the store
    satisfies the invariant, provided the identifier that \<open>crypto.randomUUID()\<close> hands out
    in a turn is not yet an id of the store.
  \<^item> Startup does not validate what it reads. When the slot holds what the page wrote
    for a task list \<open>ts\<close>, or any other JSON text of an array of the task objects \<open>ts\<close>,
    the store after startup is \<open>ts\<close> itself, whether \<open>ts\<close> satisfies the invariant or not.
    When the slot is missing, empty or not JSON, startup leaves the initial state, whose
    store is empty.
\<close>

theorem store_invariant:
  "(storeOk ts \<and> freshRun (initialState\<lparr>tasks := ts\<rparr>) s \<longrightarrow> storeOk (tasks s))
   \<and> startup (persist ts) = Some (initialState\<lparr>tasks := ts\<rparr>)
   \<and> (JSON_parse doc = Some (JArray (map taskJson ts))
        \<longrightarrow> startup (Some doc) = Some (initialState\<lparr>tasks := ts\<rparr>))
   \<and> (JSON_parse doc = None \<longrightarrow> startup (Some doc) = Some initialState)
   \<and> startup None = Some initialState
   \<and> startup (Some []) = Some initialState
   \<and> tasks initialState = []"
proof -
  have run: "storeOk (tasks s)" if "storeOk ts" and "freshRun (initialState\<lparr>tasks := ts\<rparr>) s"
  proof -
    from that(1) have "wellFormed (initialState\<lparr>tasks := ts\<rparr>)"
      by (simp add: wellFormed_def initialState_def draftOk_simps)
    with that(2) have "wellFormed s"
      by (rule freshRun_wellFormed)
    then show ?thesis
      by (simp add: wellFormed_def)
  qed
  have written: "startup (persist ts) = Some (initialState\<lparr>tasks := ts\<rparr>)"
    unfolding persist_def by (intro startup_array parse_stringify)
  have "startup (Some doc) = Some initialState" if "JSON_parse doc = None"
    using that by (simp add: startup_def rehydrate_def)
  moreover have "startup None = Some initialState" "startup (Some []) = Some initialState"
    by (simp_all add: startup_def rehydrate_def)
  moreover have "tasks initialState = []"
    by (simp add: initialState_def)
  ultimately show ?thesis
    using run written startup_array [of doc ts] by blast
qed

lemma dirtySlot_loads: "rehydrate (Some dirtySlot) = Loaded dirtyStore"
  by code_simp

text \<open>
  Over \<open>exampleStore\<close>, which satisfies the invariant, the six turns that add a task
  under a new id leave a store of three tasks that satisfies it. The slot that the page
  wrote for \<open>exampleStore\<close> gives \<open>exampleStore\<close> back, the slot \<open>dirtySlot\<close> gives a store
  with a repeated id, and a slot that is not JSON gives the empty store.
\<close>

theorem store_invariant_witness:
  "storeOk (tasks (turns [(''u1'', ''add a task''), (''u2'', ''Buy milk''),
                          (''u3'', ''tomorrow 9am''), (''u4'', ''High''), (''u5'', ''no''),
                          (''id-c'', ''yes'')]
                    (initialState\<lparr>tasks := exampleStore\<rparr>)))
   \<and> map task_id (tasks (turns [(''u1'', ''add a task''), (''u2'', ''Buy milk''),
                          (''u3'', ''tomorrow 9am''), (''u4'', ''High''), (''u5'', ''no''),
                          (''id-c'', ''yes'')]
                    (initialState\<lparr>tasks := exampleStore\<rparr>))) = [''id-a'', ''id-b'', ''id-c'']
   \<and> startup (persist exampleStore) = Some (initialState\<lparr>tasks := exampleStore\<rparr>)
   \<and> startup (Some dirtySlot) = Some (initialState\<lparr>tasks := dirtyStore\<rparr>)
   \<and> startup (Some ''{broken'') = Some initialState"
proof -
  have ok: "storeOk exampleStore"
    by (simp add: storeOk_def exampleStore_def exampleTask_def priorityOptions_def)
  have fresh: "freshTurns [(''u1'', ''add a task''), (''u2'', ''Buy milk''),
      (''u3'', ''tomorrow 9am''), (''u4'', ''High''), (''u5'', ''no''), (''id-c'', ''yes'')]
      (initialState\<lparr>tasks := exampleStore\<rparr>)"
    by code_simp
  have run: "freshRun (initialState\<lparr>tasks := exampleStore\<rparr>)
      (turns [(''u1'', ''add a task''), (''u2'', ''Buy milk''),
              (''u3'', ''tomorrow 9am''), (''u4'', ''High''), (''u5'', ''no''),
              (''id-c'', ''yes'')]
         (initialState\<lparr>tasks := exampleStore\<rparr>))"
    using freshRun.start fresh by (rule freshRun_turns)
  have ids: "map task_id (tasks (turns [(''u1'', ''add a task''), (''u2'', ''Buy milk''),
                          (''u3'', ''tomorrow 9am''), (''u4'', ''High''), (''u5'', ''no''),
                          (''id-c'', ''yes'')]
                    (initialState\<lparr>tasks := exampleStore\<rparr>))) = [''id-a'', ''id-b'', ''id-c'']"
    by code_simp
  have dirty: "JSON_parse dirtySlot = Some (JArray (map taskJson dirtyStore))"
    by code_simp
  have broken: "JSON_parse ''{broken'' = None"
    by code_simp
  show ?thesis
    using store_invariant [of exampleStore
        "turns [(''u1'', ''add a task''), (''u2'', ''Buy milk''),
                (''u3'', ''tomorrow 9am''), (''u4'', ''High''), (''u5'', ''no''),
                (''id-c'', ''yes'')]
           (initialState\<lparr>tasks := exampleStore\<rparr>)" "''{broken''"]
      store_invariant [of dirtyStore initialState dirtySlot]
      ok run ids dirty broken
    by simp
qed

text \<open>
  The claim as stated fails at startup: this slot is well-formed JSON, an array of two
  task objects, and after rehydration the store holds two tasks with the same id, one of
  them with the priority \<open>Urgent\<close>.
\<close>

theorem store_invariant_counterexample:
  "startup (Some dirtySlot) = Some (initialState\<lparr>tasks := dirtyStore\<rparr>)
   \<and> \<not> distinct (map task_id dirtyStore)
   \<and> priority (hd dirtyStore) \<notin> set priorityOptions"
  by (simp add: startup_def dirtySlot_loads dirtyStore_def priorityOptions_def)

end
